theory Spec2Isabelle
  imports Complex_Main "HOL-Library.AList"
begin

section \<open>Grid clustering of the ClusterLayer (src/index.js)\<close>

text \<open>
  The development embeds the clustering engine of the canvas renderer of
  \<^verbatim>\<open>ClusterLayer\<close>: point indexing (\<^verbatim>\<open>_initGridSystem\<close>), bucketing and parent
  linkage (\<^verbatim>\<open>_computeZoomGrid\<close>), neighbour merging (\<^verbatim>\<open>_mergeClusters\<close>), the level
  cache (\<^verbatim>\<open>_computeGrid\<close>), the hit test (\<^verbatim>\<open>identify\<close>) and the type check of
  \<^verbatim>\<open>addGeometry\<close>.

  JavaScript numbers are modelled by the reals, zoom levels and cell indices by the
  integers. A cell key is the string \<^verbatim>\<open>gx + '_' + gy\<close> in the source; it is modelled by
  the pair \<open>(gx, gy)\<close>, of which the string is an injective rendering
  (\<^verbatim>\<open>key.split('_')\<close> followed by unary plus reads the pair back).
\<close>

subsection \<open>Data\<close>

datatype coordinate = Coordinate (cx: real) (cy: real)

text \<open>\<^verbatim>\<open>Coordinate._add\<close> (used on the running sum) and \<^verbatim>\<open>Coordinate.multi\<close>.\<close>

definition add :: "coordinate \<Rightarrow> coordinate \<Rightarrow> coordinate" where
  "add a b = Coordinate (cx a + cx b) (cy a + cy b)"

definition multi :: "coordinate \<Rightarrow> real \<Rightarrow> coordinate" where
  "multi a ratio = Coordinate (cx a * ratio) (cy a * ratio)"

record extent =
  xmin :: real
  ymin :: real
  xmax :: real
  ymax :: real

definition getMin :: "extent \<Rightarrow> coordinate" where
  "getMin e = Coordinate (xmin e) (ymin e)"

definition combine :: "extent \<Rightarrow> extent \<Rightarrow> extent" where
  "combine a b = \<lparr> xmin = min (xmin a) (xmin b), ymin = min (ymin a) (ymin b),
                   xmax = max (xmax a) (xmax b), ymax = max (ymax a) (ymax b) \<rparr>"

text \<open>
  A marker of the layer, as far as the renderer reads it: \<^verbatim>\<open>isVisible()\<close>,
  \<^verbatim>\<open>_getPrjCoordinates()\<close>, \<^verbatim>\<open>_getPrjExtent()\<close>, \<^verbatim>\<open>_getInternalId()\<close> and
  \<^verbatim>\<open>getProperties()\<close> (absent, or a table from property names to numbers).
\<close>

record geometry =
  internalId :: nat
  isVisible :: bool
  prjCoordinates :: coordinate
  prjExtent :: extent
  getProperties :: "(string \<times> real) list option"

record point =
  px :: real
  py :: real
  pid :: nat
  geometry :: geometry

type_synonym key = "int \<times> int"

text \<open>
  Cell objects are shared between \<^verbatim>\<open>grids\<close>, \<^verbatim>\<open>clusterMap\<close> and the \<^verbatim>\<open>merging\<close>
  lists and are mutated in place, so they live in an explicit store. A cell object is
  allocated exactly once, by \<^verbatim>\<open>grids[key] = {...}\<close>, which makes the key under which it
  is created a name for the object: a reference is that key.
\<close>

type_synonym ref = key

record cluster =
  sum_coord :: coordinate
  center :: coordinate
  count :: nat
  textSumProperty :: real
  children :: "geometry list"
  key :: key
  parent :: "ref option"

type_synonym store = "ref \<Rightarrow> cluster option"

text \<open>
  A JavaScript object used as a dictionary with keys that are not array indices
  enumerates its properties in insertion order; it is an association list with distinct
  keys: \<open>map_of\<close> reads, \<open>AList.update\<close> writes (in place, or at the end for a new key),
  \<open>AList.delete\<close> deletes.
\<close>

type_synonym 'v dict = "(key \<times> 'v) list"

record levelResult =
  clusters :: "ref dict"
  clusterMap :: "ref dict"
  objects :: store

subsection \<open>addGeometry\<close>









subsection \<open>\<^verbatim>\<open>_distanceTo\<close>\<close>

definition distanceTo :: "coordinate \<Rightarrow> coordinate \<Rightarrow> real" where
  "distanceTo c1 c2 =
     (let x = cx c1 - cx c2; y = cy c1 - cy c2 in sqrt (x * x + y * y))"

subsection \<open>\<^verbatim>\<open>_mergeClusters\<close>\<close>

text \<open>
  The keys \<^verbatim>\<open>(gx + ii) + '_' + (gy + iii)\<close> in the order of the two nested loops,
  \<^verbatim>\<open>ii\<close> outside and \<^verbatim>\<open>iii\<close> inside, without \<^verbatim>\<open>ii === 0 && iii === 0\<close>.
\<close>

definition neighbours :: "key \<Rightarrow> key list" where
  "neighbours k =
     [(fst k + ii, snd k + iii). ii \<leftarrow> [-1, 0, 1], iii \<leftarrow> [-1, 0, 1], \<not> (ii = 0 \<and> iii = 0)]"

text \<open>\<^verbatim>\<open>if (!merging[k]) merging[k] = []; merging[k].push(c2)\<close>\<close>

definition push :: "ref list dict \<Rightarrow> key \<Rightarrow> ref \<Rightarrow> ref list dict" where
  "push merging k c2 =
     AList.update k ((case map_of merging k of None \<Rightarrow> [] | Some cs \<Rightarrow> cs) @ [c2]) merging"

text \<open>
  The body of the inner loops for one neighbour key: \<^verbatim>\<open>c2 = grids[key2]\<close>, the distance
  test, the push onto \<^verbatim>\<open>merging[c1.key]\<close> and the mark \<^verbatim>\<open>visited[c2.key] = 1\<close>.
  The state is the pair of \<^verbatim>\<open>merging\<close> and \<^verbatim>\<open>visited\<close>. A reference held by
  \<^verbatim>\<open>grids\<close> always has its object; the branch for a missing one only makes the
  function total.
\<close>

definition visitNeighbour ::
  "ref dict \<Rightarrow> store \<Rightarrow> real \<Rightarrow> cluster \<Rightarrow> key \<Rightarrow> ref list dict \<times> key set \<Rightarrow> ref list dict \<times> key set"
where
  "visitNeighbour grids h r c1 key2 mv =
     (case map_of grids key2 of
        None \<Rightarrow> mv
      | Some a2 \<Rightarrow>
          (case h a2 of
             None \<Rightarrow> mv
           | Some c2 \<Rightarrow>
               if distanceTo (center c1) (center c2) \<le> r
               then (push (fst mv) (key c1) a2, insert (key c2) (snd mv))
               else mv))"

text \<open>The body of the first \<^verbatim>\<open>for (const p in grids)\<close> loop.\<close>

definition visitCell ::
  "ref dict \<Rightarrow> store \<Rightarrow> real \<Rightarrow> key \<times> ref \<Rightarrow> ref list dict \<times> key set \<Rightarrow> ref list dict \<times> key set"
where
  "visitCell grids h r e mv =
     (case h (snd e) of
        None \<Rightarrow> mv
      | Some c1 \<Rightarrow>
          if key c1 \<in> snd mv then mv
          else fold (visitNeighbour grids h r c1) (neighbours (key c1)) mv)"

definition findMerging :: "ref dict \<Rightarrow> store \<Rightarrow> real \<Rightarrow> ref list dict \<times> key set" where
  "findMerging grids h r = fold (visitCell grids h r) grids ([], {})"

text \<open>
  The body of the loop over \<^verbatim>\<open>toMerge\<close>, for the surviving object \<^verbatim>\<open>grid\<close> (the
  reference \<open>g\<close>) and one entry \<^verbatim>\<open>toMerge[i]\<close> (the reference \<open>t\<close>). The state is
  \<^verbatim>\<open>grids\<close>, the store and \<^verbatim>\<open>clusterMap\<close>.
\<close>

definition absorb :: "ref \<Rightarrow> ref \<Rightarrow> ref dict \<times> store \<times> ref dict \<Rightarrow> ref dict \<times> store \<times> ref dict" where
  "absorb g t s =
     (case s of (grids, h, cm) \<Rightarrow>
        (case h t of
           None \<Rightarrow> s
         | Some tobj \<Rightarrow>
             if map_of grids (key tobj) \<noteq> None
             then (case h g of
                     None \<Rightarrow> s
                   | Some grid \<Rightarrow>
                       (AList.delete (key tobj) grids,
                        h(g \<mapsto> grid\<lparr> sum_coord := add (sum_coord grid) (sum_coord tobj),
                                      count := count grid + count tobj,
                                      textSumProperty := textSumProperty grid + textSumProperty tobj,
                                      children := children grid @ children tobj \<rparr>),
                        AList.update (key tobj) g cm))
             else s))"

text \<open>\<^verbatim>\<open>grid['center'] = grid['sum'].multi(1 / grid['count'])\<close>\<close>

definition recenter :: "ref \<Rightarrow> store \<Rightarrow> store" where
  "recenter g h =
     (case h g of
        None \<Rightarrow> h
      | Some grid \<Rightarrow> h(g \<mapsto> grid\<lparr> center := multi (sum_coord grid) (1 / real (count grid)) \<rparr>))"

text \<open>The body of the second loop, \<^verbatim>\<open>for (const m in merging)\<close>.\<close>

definition mergeInto ::
  "key \<times> ref list \<Rightarrow> ref dict \<times> store \<times> ref dict \<Rightarrow> ref dict \<times> store \<times> ref dict"
where
  "mergeInto e s =
     (case map_of (fst s) (fst e) of
        None \<Rightarrow> s
      | Some g \<Rightarrow>
          (case fold (absorb g) (snd e) s of
             (grids, h, cm) \<Rightarrow> (grids, recenter g h, cm)))"

definition mergeClusters :: "ref dict \<Rightarrow> store \<Rightarrow> real \<Rightarrow> levelResult" where
  "mergeClusters grids h r =
     (let clusterMap0 = grids;
          merging = fst (findMerging grids h r)
      in case fold mergeInto merging (grids, h, clusterMap0) of
           (grids', h', cm) \<Rightarrow> \<lparr> clusters = grids', clusterMap = cm, objects = h' \<rparr>)"

subsection \<open>\<^verbatim>\<open>_computeZoomGrid\<close>\<close>

text \<open>\<^verbatim>\<open>Math.floor((x - min.x) / r) + '_' + Math.floor((y - min.y) / r)\<close>\<close>

definition cellOf :: "coordinate \<Rightarrow> real \<Rightarrow> real \<Rightarrow> real \<Rightarrow> key" where
  "cellOf mn r x y = (\<lfloor>(x - cx mn) / r\<rfloor>, \<lfloor>(y - cy mn) / r\<rfloor>)"

text \<open>
  The weight of a point: the value of the configured property, \<open>0\<close> when no property
  name is configured, the marker has no properties, or the value is missing or falsy.
\<close>

definition sumProp :: "string option \<Rightarrow> geometry \<Rightarrow> real" where
  "sumProp sumProperty geo =
     (case sumProperty of
        None \<Rightarrow> 0
      | Some name \<Rightarrow>
          if name = [] then 0
          else (case getProperties geo of
                  None \<Rightarrow> 0
                | Some props \<Rightarrow> (case map_of props name of None \<Rightarrow> 0 | Some v \<Rightarrow> v)))"

text \<open>
  The parent stored in a new cell object: under \<^verbatim>\<open>if (preT && preCache)\<close>, the entry
  of the coarser level's \<^verbatim>\<open>clusterMap\<close> for the cell that the point which creates the
  object has at cell size \<^verbatim>\<open>preT\<close>.
\<close>

definition parentOf :: "coordinate \<Rightarrow> real option \<Rightarrow> levelResult option \<Rightarrow> point \<Rightarrow> ref option" where
  "parentOf mn preT preCache p =
     (case preT of
        None \<Rightarrow> None
      | Some t \<Rightarrow>
          if t = 0 then None
          else (case preCache of
                  None \<Rightarrow> None
                | Some pc \<Rightarrow> map_of (clusterMap pc) (cellOf mn t (px p) (py p))))"

text \<open>The body of the loop over \<^verbatim>\<open>points\<close>; the state is \<^verbatim>\<open>grids\<close> and the store.\<close>

definition addPoint ::
  "string option \<Rightarrow> coordinate \<Rightarrow> real \<Rightarrow> real option \<Rightarrow> levelResult option \<Rightarrow> point
     \<Rightarrow> ref dict \<times> store \<Rightarrow> ref dict \<times> store"
where
  "addPoint sumProperty mn r preT preCache p gs =
     (let geo = geometry p;
          sp = sumProp sumProperty geo;
          k = cellOf mn r (px p) (py p)
      in case map_of (fst gs) k of
           None \<Rightarrow>
             (fst gs @ [(k, k)],
              (snd gs)(k \<mapsto> \<lparr> sum_coord = Coordinate (px p) (py p),
                               center = Coordinate (px p) (py p),
                               count = 1,
                               textSumProperty = sp,
                               children = [geo],
                               key = k,
                               parent = parentOf mn preT preCache p \<rparr>))
         | Some a \<Rightarrow>
             (case snd gs a of
                None \<Rightarrow> gs
              | Some grid \<Rightarrow>
                  (fst gs,
                   (snd gs)(a \<mapsto>
                      (let s = add (sum_coord grid) (Coordinate (px p) (py p));
                           n = count grid + 1
                       in grid\<lparr> sum_coord := s,
                                 count := n,
                                 center := multi s (1 / real n),
                                 children := children grid @ [geo],
                                 textSumProperty := textSumProperty grid + sp \<rparr>)))))"

definition bucketPoints ::
  "string option \<Rightarrow> coordinate \<Rightarrow> real \<Rightarrow> real option \<Rightarrow> levelResult option \<Rightarrow> point list
     \<Rightarrow> ref dict \<times> store"
where
  "bucketPoints sumProperty mn r preT preCache points =
     fold (addPoint sumProperty mn r preT preCache) points ([], Map.empty)"

text \<open>
  The host map, as far as the renderer reads it. \<^verbatim>\<open>_getResolution\<close> gives \<open>0\<close> for a
  level that has no resolution: the source tests the value for truthiness and multiplies
  it, and \<^verbatim>\<open>null\<close> is falsy and multiplies as \<open>0\<close>.
\<close>

record mapView =
  getZoom :: int
  getMinZoom :: int
  getMaxZoom :: int
  getResolution :: "int \<Rightarrow> real"

record layerOptions =
  maxClusterRadius :: real
  textSumPropertyName :: "string option"
  maxClusterZoom :: "int option"
  noClusterWithOneMarker :: bool

text \<open>
  The fields of the renderer that the grid computation reads and writes. An absent
  cache entry and a \<^verbatim>\<open>null\<close> one are both \<open>None\<close>: the source tests entries for
  truthiness only. \<open>geoList\<close> is what \<^verbatim>\<open>layer.forEach\<close> enumerates.
\<close>

record renderer =
  theMap :: mapView
  options :: layerOptions
  geoList :: "geometry list"
  markerExtent :: "extent option"
  markerPoints :: "point list"
  clusterCache :: "int \<Rightarrow> levelResult option"

definition cellSize :: "renderer \<Rightarrow> int \<Rightarrow> real" where
  "cellSize st zoom = getResolution (theMap st) zoom * maxClusterRadius (options st)"

function computeZoomGrid :: "renderer \<Rightarrow> int \<Rightarrow> levelResult option \<times> renderer" where
  "computeZoomGrid st zoom =
     (case markerExtent st of
        None \<Rightarrow> (None, st)
      | Some ext \<Rightarrow>
          (let r = cellSize st zoom;
               preT = (if getResolution (theMap st) (zoom - 1) \<noteq> 0
                       then Some (cellSize st (zoom - 1)) else None);
               pre = (if clusterCache st (zoom - 1) = None \<and> getMinZoom (theMap st) \<le> zoom - 1
                      then (case computeZoomGrid st (zoom - 1) of
                              (res, st') \<Rightarrow>
                                (res, st'\<lparr> clusterCache := (clusterCache st')(zoom - 1 := res) \<rparr>))
                      else (clusterCache st (zoom - 1), st));
               preCache = fst pre;
               st1 = snd pre;
               gs = bucketPoints (textSumPropertyName (options st1)) (getMin ext) r preT preCache
                      (markerPoints st1)
           in (Some (mergeClusters (fst gs) (snd gs) (r / 2)), st1)))"
  by pat_completeness auto
termination
  by (relation "measure (\<lambda>(st, zoom). nat (zoom - getMinZoom (theMap st) + 1))") auto

declare computeZoomGrid.simps [simp del]

subsection \<open>\<^verbatim>\<open>_initGridSystem\<close>, \<^verbatim>\<open>_clearDataCache\<close> and \<^verbatim>\<open>_computeGrid\<close>\<close>

definition indexGeometry :: "geometry \<Rightarrow> extent option \<times> point list \<Rightarrow> extent option \<times> point list" where
  "indexGeometry g ep =
     (if \<not> isVisible g then ep
      else (let c = prjCoordinates g;
                extent' = (case fst ep of
                             None \<Rightarrow> prjExtent g
                           | Some e \<Rightarrow> combine e (prjExtent g))
            in (Some extent',
                snd ep @ [\<lparr> px = cx c, py = cy c, pid = internalId g, geometry = g \<rparr>])))"

definition initGridSystem :: "renderer \<Rightarrow> renderer" where
  "initGridSystem st =
     (case fold indexGeometry (geoList st) (None, []) of
        (extent', points) \<Rightarrow> st\<lparr> markerExtent := extent', markerPoints := points \<rparr>)"

definition clearDataCache :: "renderer \<Rightarrow> renderer" where
  "clearDataCache st =
     st\<lparr> markerExtent := None, markerPoints := [], clusterCache := (\<lambda>z. None) \<rparr>"

text \<open>
  \<^verbatim>\<open>this._clusterCache[pre].length\<close>: a cache entry is the object literal
  \<^verbatim>\<open>{ clusters, clusterMap }\<close> that \<^verbatim>\<open>_mergeClusters\<close> returns. It has no property
  \<^verbatim>\<open>length\<close>, so the read gives \<^verbatim>\<open>undefined\<close>, here \<open>None\<close>.
\<close>

definition lengthOf :: "levelResult \<Rightarrow> nat option" where
  "lengthOf lr = None"

definition computeGrid :: "renderer \<Rightarrow> renderer" where
  "computeGrid st =
     (let zoom = getZoom (theMap st);
          st1 = (if markerExtent st = None then initGridSystem st else st);
          pre = (if getResolution (theMap st1) (getMinZoom (theMap st1))
                      > getResolution (theMap st1) (getMaxZoom (theMap st1))
                 then zoom - 1 else zoom + 1);
          st2 = (case clusterCache st1 pre of
                   None \<Rightarrow> st1
                 | Some lr \<Rightarrow>
                     if lengthOf lr = Some (length (geoList st1))
                     then st1\<lparr> clusterCache := (clusterCache st1)(zoom := clusterCache st1 pre) \<rparr>
                     else st1)
      in if clusterCache st2 zoom = None
         then (case computeZoomGrid st2 zoom of
                 (res, st3) \<Rightarrow> st3\<lparr> clusterCache := (clusterCache st3)(zoom := res) \<rparr>)
         else st2)"


subsection \<open>\<^verbatim>\<open>draw\<close> and \<^verbatim>\<open>_getClustersToDraw\<close>\<close>

text \<open>
  The part of \<^verbatim>\<open>draw\<close> below the \<^verbatim>\<open>maxClusterZoom\<close> branch that obtains the level:
  the recomputation when \<^verbatim>\<open>_clusterNeedRedraw\<close> is set, and the read
  \<^verbatim>\<open>this._clusterCache[zoom] ? this._clusterCache[zoom]['clusters'] : null\<close>. The level
  is returned whole, since its \<^verbatim>\<open>clusters\<close> hold references into its store.
\<close>

definition zoomClusters :: "bool \<Rightarrow> renderer \<Rightarrow> levelResult option \<times> renderer" where
  "zoomClusters clusterNeedRedraw st =
     (let st' = (if clusterNeedRedraw then computeGrid (clearDataCache st) else st)
      in (clusterCache st' (getZoom (theMap st')), st'))"

text \<open>
  The body of the loop of \<^verbatim>\<open>_getClustersToDraw\<close>; the state is the list \<^verbatim>\<open>clusters\<close>
  and \<^verbatim>\<open>_markersToDraw\<close>. \<open>onScreen\<close> stands for the test of the host map that the
  sprite of the cluster meets the container extent. The attributes that the loop writes
  for the drawing (\<^verbatim>\<open>textSize\<close>, \<^verbatim>\<open>marker._cluster\<close>) are left out.
\<close>

definition toDraw ::
  "(cluster \<Rightarrow> bool) \<Rightarrow> bool \<Rightarrow> store \<Rightarrow> key \<times> ref \<Rightarrow> cluster list \<times> geometry list
     \<Rightarrow> cluster list \<times> geometry list"
where
  "toDraw onScreen noCluster h e cm =
     (case h (snd e) of
        None \<Rightarrow> cm
      | Some c \<Rightarrow>
          if count c = 1 \<and> noCluster then (fst cm, snd cm @ take 1 (children c))
          else if \<not> onScreen c then cm
          else (fst cm @ [c], snd cm))"

text \<open>\<^verbatim>\<open>for (const p in zoomClusters)\<close> runs no turn when \<^verbatim>\<open>zoomClusters\<close> is \<^verbatim>\<open>null\<close>.\<close>

definition getClustersToDraw ::
  "(cluster \<Rightarrow> bool) \<Rightarrow> renderer \<Rightarrow> levelResult option \<Rightarrow> cluster list \<times> geometry list"
where
  "getClustersToDraw onScreen st zc =
     (case zc of
        None \<Rightarrow> ([], [])
      | Some lr \<Rightarrow>
          fold (toDraw onScreen (noClusterWithOneMarker (options st)) (objects lr)) (clusters lr)
            ([], []))"

subsection \<open>\<^verbatim>\<open>identify\<close> (renderer)\<close>








subsection \<open>The level that \<^verbatim>\<open>_computeZoomGrid\<close> returns\<close>

text \<open>
  The coarser level as \<^verbatim>\<open>_computeZoomGrid\<close> obtains it (the cached one, or the one it
  computes and caches first), and the level it then builds from it. Both only name parts
  of the body of \<open>computeZoomGrid\<close>; \<open>computeZoomGrid_Some\<close> below is the equation.
\<close>

definition preLevel :: "renderer \<Rightarrow> int \<Rightarrow> levelResult option \<times> renderer" where
  "preLevel st zoom =
     (if clusterCache st (zoom - 1) = None \<and> getMinZoom (theMap st) \<le> zoom - 1
      then (case computeZoomGrid st (zoom - 1) of
              (res, st') \<Rightarrow> (res, st'\<lparr> clusterCache := (clusterCache st')(zoom - 1 := res) \<rparr>))
      else (clusterCache st (zoom - 1), st))"

definition levelOf :: "renderer \<Rightarrow> int \<Rightarrow> extent \<Rightarrow> levelResult" where
  "levelOf st zoom ext =
     (let preT = (if getResolution (theMap st) (zoom - 1) \<noteq> 0
                  then Some (cellSize st (zoom - 1)) else None);
          gs = bucketPoints (textSumPropertyName (options st)) (getMin ext) (cellSize st zoom) preT
                 (fst (preLevel st zoom)) (markerPoints st)
      in mergeClusters (fst gs) (snd gs) (cellSize st zoom / 2))"

text \<open>What \<^verbatim>\<open>_computeZoomGrid\<close> leaves alone in the renderer: all but the cache.\<close>

definition frame :: "renderer \<Rightarrow> renderer \<Rightarrow> bool" where
  "frame s' s \<longleftrightarrow>
     theMap s' = theMap s \<and> options s' = options s \<and> geoList s' = geoList s \<and>
     markerExtent s' = markerExtent s \<and> markerPoints s' = markerPoints s"

subsection \<open>Observations on a level\<close>

text \<open>The \<^verbatim>\<open>count\<close> of the object behind a reference, and the sum of the counts of a
  level's clusters.\<close>

definition cnt :: "store \<Rightarrow> ref \<Rightarrow> nat" where
  "cnt h a = (case h a of None \<Rightarrow> 0 | Some c \<Rightarrow> count c)"


text \<open>The sum of the projected coordinates of a list of markers.\<close>

definition sumCoords :: "geometry list \<Rightarrow> coordinate" where
  "sumCoords gs =
     Coordinate (\<Sum>g\<leftarrow>gs. cx (prjCoordinates g)) (\<Sum>g\<leftarrow>gs. cy (prjCoordinates g))"

text \<open>Points as \<^verbatim>\<open>_initGridSystem\<close> builds them: at the coordinates of their marker.\<close>

definition indexed :: "point list \<Rightarrow> bool" where
  "indexed pts \<longleftrightarrow> (\<forall>p \<in> set pts. prjCoordinates (geometry p) = Coordinate (px p) (py p))"

text \<open>
  Two neighbouring cells of a grid whose centres are within \<open>r\<close> of each other, and the
  neighbours of a cell with that property, in the order of the scan.
\<close>

definition near :: "ref dict \<Rightarrow> store \<Rightarrow> real \<Rightarrow> key \<Rightarrow> key \<Rightarrow> bool" where
  "near grids h r k k2 \<longleftrightarrow>
     k2 \<in> set (neighbours k) \<and> map_of grids k2 \<noteq> None \<and>
     (case h k of
        None \<Rightarrow> False
      | Some c1 \<Rightarrow> (case h k2 of
                     None \<Rightarrow> False
                   | Some c2 \<Rightarrow> distanceTo (center c1) (center c2) \<le> r))"

definition nearList :: "ref dict \<Rightarrow> store \<Rightarrow> real \<Rightarrow> key \<Rightarrow> key list" where
  "nearList grids h r k = filter (near grids h r k) (neighbours k)"

text \<open>The first point of the list that falls into the cell \<open>k\<close>: the point that creates
  the cell's object.\<close>

definition firstPoint :: "coordinate \<Rightarrow> real \<Rightarrow> point list \<Rightarrow> key \<Rightarrow> point option" where
  "firstPoint mn r pts k = find (\<lambda>q. cellOf mn r (px q) (py q) = k) pts"

text \<open>The object of a level, if there is a level, under a reference.\<close>

definition clusterAt :: "levelResult option \<Rightarrow> ref \<Rightarrow> cluster option" where
  "clusterAt res a = (case res of None \<Rightarrow> None | Some lr \<Rightarrow> objects lr a)"


text \<open>
  What the renderer draws of a level: its clusters in their order, each with its key,
  its count and its centre.
\<close>

definition levelView :: "levelResult option \<Rightarrow> (key \<times> (key \<times> nat \<times> coordinate) option) list option" where
  "levelView res =
     map_option
       (\<lambda>lr. map (\<lambda>e. (fst e, map_option (\<lambda>c. (key c, count c, center c)) (objects lr (snd e))))
                 (clusters lr))
       res"

subsection \<open>Invariants\<close>

text \<open>
  The grid that the bucketing hands to \<^verbatim>\<open>_mergeClusters\<close>: every object carries the key
  under which the store holds it, and \<^verbatim>\<open>grids\<close> holds each of its keys once, with the
  object of that name.
\<close>

definition wf_store :: "store \<Rightarrow> bool" where
  "wf_store h \<longleftrightarrow> (\<forall>a c. h a = Some c \<longrightarrow> key c = a)"

definition wf_grids :: "ref dict \<Rightarrow> store \<Rightarrow> bool" where
  "wf_grids grids h \<longleftrightarrow>
     distinct (map fst grids) \<and> (\<forall>e \<in> set grids. snd e = fst e \<and> h (fst e) \<noteq> None)"

text \<open>The two objects that \<open>addPoint\<close> writes, and the one that \<open>absorb\<close> writes.\<close>

definition newCell ::
  "string option \<Rightarrow> coordinate \<Rightarrow> real option \<Rightarrow> levelResult option \<Rightarrow> key \<Rightarrow> point \<Rightarrow> cluster"
where
  "newCell sumProperty mn preT preCache k p =
     \<lparr> sum_coord = Coordinate (px p) (py p), center = Coordinate (px p) (py p), count = 1,
       textSumProperty = sumProp sumProperty (geometry p), children = [geometry p], key = k,
       parent = parentOf mn preT preCache p \<rparr>"

definition grown :: "string option \<Rightarrow> cluster \<Rightarrow> point \<Rightarrow> cluster" where
  "grown sumProperty grid p =
     grid\<lparr> sum_coord := add (sum_coord grid) (Coordinate (px p) (py p)),
           count := count grid + 1,
           center := multi (add (sum_coord grid) (Coordinate (px p) (py p))) (1 / real (count grid + 1)),
           children := children grid @ [geometry p],
           textSumProperty := textSumProperty grid + sumProp sumProperty (geometry p) \<rparr>"

definition merged :: "cluster \<Rightarrow> cluster \<Rightarrow> cluster" where
  "merged grid tobj =
     grid\<lparr> sum_coord := add (sum_coord grid) (sum_coord tobj),
           count := count grid + count tobj,
           textSumProperty := textSumProperty grid + textSumProperty tobj,
           children := children grid @ children tobj \<rparr>"

text \<open>The invariant of the loop over the points.\<close>

definition bucketInv :: "coordinate \<Rightarrow> real \<Rightarrow> point list \<Rightarrow> ref dict \<times> store \<Rightarrow> bool" where
  "bucketInv mn r pts gs \<longleftrightarrow>
     wf_grids (fst gs) (snd gs) \<and> wf_store (snd gs) \<and>
     fst ` set (fst gs) = (\<lambda>p. cellOf mn r (px p) (py p)) ` set pts \<and>
     sum (cnt (snd gs)) (fst ` set (fst gs)) = length pts"

text \<open>The invariant of the loop over the points that concerns \<^verbatim>\<open>parent\<close>.\<close>

definition parentInv ::
  "coordinate \<Rightarrow> real \<Rightarrow> real option \<Rightarrow> levelResult option \<Rightarrow> point list \<Rightarrow> store \<Rightarrow> bool"
where
  "parentInv mn r preT preCache pts h \<longleftrightarrow>
     (\<forall>k c. h k = Some c \<longrightarrow>
        parent c = (case firstPoint mn r pts k of
                      None \<Rightarrow> None
                    | Some q \<Rightarrow> parentOf mn preT preCache q))"

text \<open>
  The invariant of the first loop of \<^verbatim>\<open>_mergeClusters\<close>, after the cells \<open>D\<close>: a cell
  has a merge list only if it was not marked when its turn came, the list is \<open>nearList\<close>,
  no cell with a list is marked later, and the marked cells are those on the lists.
\<close>

definition inv1 :: "ref dict \<Rightarrow> store \<Rightarrow> real \<Rightarrow> key set \<Rightarrow> ref list dict \<times> key set \<Rightarrow> bool" where
  "inv1 grids h r D mv \<longleftrightarrow>
     distinct (map fst (fst mv)) \<and>
     (\<forall>k ts. map_of (fst mv) k = Some ts \<longrightarrow>
        k \<in> D \<and> k \<notin> snd mv \<and> map_of grids k \<noteq> None \<and> ts = nearList grids h r k \<and> ts \<noteq> []) \<and>
     (\<forall>k \<in> D. k \<notin> snd mv \<longrightarrow> set (nearList grids h r k) \<subseteq> snd mv) \<and>
     (\<forall>k \<in> D. k \<notin> snd mv \<longrightarrow> nearList grids h r k \<noteq> [] \<longrightarrow> map_of (fst mv) k \<noteq> None) \<and>
     (\<forall>t \<in> snd mv. \<exists>k. map_of (fst mv) k \<noteq> None \<and> t \<in> set (nearList grids h r k))"

text \<open>
  What the second loop needs of \<^verbatim>\<open>merging\<close>, and its invariant: the cells with a
  merge list stay in \<^verbatim>\<open>grids\<close>, and \<^verbatim>\<open>clusterMap\<close> sends a key to its own object while
  that is in \<^verbatim>\<open>grids\<close>, and else to a cell on whose list the key stands.
\<close>

definition mergingOK :: "key set \<Rightarrow> ref list dict \<Rightarrow> bool" where
  "mergingOK G0 M \<longleftrightarrow>
     (\<forall>e \<in> set M. fst e \<in> G0 \<and> set (snd e) \<subseteq> G0 \<and> set (snd e) \<inter> fst ` set M = {})"

definition inv2 :: "key set \<Rightarrow> ref list dict \<Rightarrow> ref dict \<times> store \<times> ref dict \<Rightarrow> bool" where
  "inv2 G0 M s \<longleftrightarrow>
     (case s of (grids, h, cm) \<Rightarrow>
        wf_grids grids h \<and> wf_store h \<and> (\<forall>k \<in> G0. h k \<noteq> None) \<and>
        fst ` set M \<subseteq> fst ` set grids \<and> fst ` set grids \<subseteq> G0 \<and>
        fst ` set cm = G0 \<and> distinct (map fst cm) \<and>
        (\<forall>e \<in> set cm. (snd e = fst e \<and> fst e \<in> fst ` set grids) \<or>
                        (\<exists>ts. (snd e, ts) \<in> set M \<and> fst e \<in> set ts)))"

definition total :: "ref dict \<times> store \<times> ref dict \<Rightarrow> nat" where
  "total s = (case s of (grids, h, cm) \<Rightarrow> sum (cnt h) (fst ` set grids))"

text \<open>
  Consistency of one object: its count is the number of its members, its sum is the sum
  of their coordinates (asked for when \<open>b\<close> holds), and its centre is its sum times
  \<open>1 / count\<close>.
\<close>

definition preOK :: "bool \<Rightarrow> cluster \<Rightarrow> bool" where
  "preOK b c \<longleftrightarrow>
     0 < count c \<and> count c = length (children c) \<and>
     (b \<longrightarrow> sum_coord c = sumCoords (children c))"

definition centerOK :: "cluster \<Rightarrow> bool" where
  "centerOK c \<longleftrightarrow> center c = multi (sum_coord c) (1 / real (count c))"

definition storeAll :: "(cluster \<Rightarrow> bool) \<Rightarrow> store \<Rightarrow> bool" where
  "storeAll P h \<longleftrightarrow> (\<forall>a c. h a = Some c \<longrightarrow> P c)"


text \<open>
  The keys that stand on some merge list, and the object that a key resolves to after
  the second loop: the cell of the first merge list, in the order of \<^verbatim>\<open>merging\<close>, on
  which the key stands, and the key's own object when it stands on none.
\<close>

definition absorber :: "ref list dict \<Rightarrow> key \<Rightarrow> ref" where
  "absorber M k2 = (case find (\<lambda>e. k2 \<in> set (snd e)) M of None \<Rightarrow> k2 | Some e \<Rightarrow> fst e)"

definition listed :: "ref list dict \<Rightarrow> key set" where
  "listed M = \<Union> (set ` snd ` set M)"

text \<open>
  The invariant of the second loop after the merge lists \<open>es\<close>, and within the loop
  over the list of the cell \<open>g\<close> after the entries \<open>U\<close>.
\<close>

definition inv3 :: "key set \<Rightarrow> ref list dict \<Rightarrow> key \<Rightarrow> key set \<Rightarrow> ref dict \<times> store \<times> ref dict \<Rightarrow> bool" where
  "inv3 G0 es g U s \<longleftrightarrow>
     (case s of (grids, h, cm) \<Rightarrow>
        fst ` set grids = G0 - listed es - U \<and>
        (\<forall>k \<in> G0. map_of cm k = Some (if k \<in> U \<and> k \<notin> listed es then g else absorber es k)))"

text \<open>A store without the parents.\<close>

definition noParents :: "store \<Rightarrow> store" where
  "noParents h = (\<lambda>a. map_option (\<lambda>c. c\<lparr> parent := None \<rparr>) (h a))"

definition sameButParents ::
  "ref dict \<times> store \<times> ref dict \<Rightarrow> ref dict \<times> store \<times> ref dict \<Rightarrow> bool"
where
  "sameButParents s s' \<longleftrightarrow>
     fst s = fst s' \<and> snd (snd s) = snd (snd s') \<and> noParents (fst (snd s)) = noParents (fst (snd s'))"

subsection \<open>Example layers\<close>

text \<open>
  A visible marker at a point, and a renderer over a list of markers with an empty data
  cache, \<^verbatim>\<open>maxClusterRadius\<close> 10 and levels 0 to 3.
\<close>

definition markerAt :: "nat \<Rightarrow> real \<Rightarrow> real \<Rightarrow> geometry" where
  "markerAt i x y =
     \<lparr> internalId = i, isVisible = True, prjCoordinates = Coordinate x y,
       prjExtent = \<lparr> xmin = x, ymin = y, xmax = x, ymax = y \<rparr>, getProperties = None \<rparr>"

definition layerOf :: "(int \<Rightarrow> real) \<Rightarrow> int \<Rightarrow> geometry list \<Rightarrow> renderer" where
  "layerOf res zoom geos =
     \<lparr> theMap = \<lparr> getZoom = zoom, getMinZoom = 0, getMaxZoom = 3, getResolution = res \<rparr>,
       options = \<lparr> maxClusterRadius = 10, textSumPropertyName = None, maxClusterZoom = None,
                   noClusterWithOneMarker = True \<rparr>,
       geoList = geos, markerExtent = None, markerPoints = [], clusterCache = (\<lambda>z. None) \<rparr>"

definition scenarioA :: renderer where
  "scenarioA = initGridSystem (layerOf (\<lambda>z. 1) 0 [markerAt 0 0 0, markerAt 1 1 0, markerAt 2 100 100])"

text \<open>
  Four markers whose cells at cell size 10 are \<open>(0,0)\<close>, \<open>(1,1)\<close>, \<open>(2,2)\<close> and
  \<open>(2,1)\<close>: the second and the fourth are each within 5 of the third, and 8 apart.
\<close>

definition chainLayer :: renderer where
  "chainLayer = initGridSystem
     (layerOf (\<lambda>z. 1) 0 [markerAt 0 0 0, markerAt 1 16 19, markerAt 2 20 20, markerAt 3 24 19])"

text \<open>The grids of two layers at cell size 10, as the bucketing leaves them.\<close>

definition chainGrid :: "ref dict \<times> store" where
  "chainGrid = bucketPoints None (Coordinate 0 0) 10 None None (markerPoints chainLayer)"

definition boundaryGrid :: "ref dict \<times> store" where
  "boundaryGrid = bucketPoints None (Coordinate 0 0) 10 None None
     (markerPoints (initGridSystem (layerOf (\<lambda>z. 1) 0 [markerAt 0 0 0, markerAt 1 8 10, markerAt 2 13 10])))"

text \<open>
  Four markers at levels of cell size 20 (level 0) and 10 (level 1). At level 1 the
  cells of the first two merge; the merged centre lies in another cell of level 0 than
  the first marker.
\<close>

definition parentLayer :: renderer where
  "parentLayer = initGridSystem
     (layerOf (\<lambda>z. if z = 0 then 2 else 1) 1
        [markerAt 0 19 0, markerAt 1 21 0, markerAt 2 0 19, markerAt 3 39 19])"

text \<open>A layer without markers, and one whose only marker is hidden.\<close>

definition emptyLayer :: renderer where
  "emptyLayer = layerOf (\<lambda>z. 1) 0 []"

definition hiddenLayer :: renderer where
  "hiddenLayer = layerOf (\<lambda>z. 1) 2 [(markerAt 0 3 4)\<lparr> isVisible := False \<rparr>]"

text \<open>
  Two markers far apart, with cell size 20 at level 0 and 10 at level 1: the renderer
  after \<^verbatim>\<open>_computeGrid\<close> at level 0 and a zoom of the map to level 1.
\<close>

definition farLayer :: renderer where
  "farLayer = layerOf (\<lambda>z. if z = 0 then 2 else 1) 0 [markerAt 0 0 0, markerAt 1 100 100]"

definition zoomedIn :: renderer where
  "zoomedIn = (computeGrid farLayer)\<lparr> theMap := (theMap farLayer)\<lparr> getZoom := 1 \<rparr> \<rparr>"




section \<open>Lemmas\<close>

subsection \<open>The loop of \<^verbatim>\<open>addGeometry\<close>\<close>


subsection \<open>Neighbours and distance\<close>

lemma neighbours_list:
  "neighbours (gx, gy) =
     [(gx - 1, gy - 1), (gx - 1, gy), (gx - 1, gy + 1),
      (gx, gy - 1), (gx, gy + 1),
      (gx + 1, gy - 1), (gx + 1, gy), (gx + 1, gy + 1)]"
  by (simp add: neighbours_def)

lemma neighbours_iff:
  "k2 \<in> set (neighbours k) \<longleftrightarrow>
     \<bar>fst k2 - fst k\<bar> \<le> 1 \<and> \<bar>snd k2 - snd k\<bar> \<le> 1 \<and> k2 \<noteq> k"
proof -
  obtain a b where k2: "k2 = (a, b)" by (cases k2)
  obtain gx gy where k: "k = (gx, gy)" by (cases k)
  have "(a, b) \<in> set (neighbours (gx, gy)) \<longleftrightarrow>
        (a = gx - 1 \<or> a = gx \<or> a = gx + 1) \<and> (b = gy - 1 \<or> b = gy \<or> b = gy + 1) \<and>
        \<not> (a = gx \<and> b = gy)"
    unfolding neighbours_list by simp linarith
  also have "\<dots> \<longleftrightarrow> \<bar>a - gx\<bar> \<le> 1 \<and> \<bar>b - gy\<bar> \<le> 1 \<and> (a, b) \<noteq> (gx, gy)"
    by simp linarith
  finally show ?thesis by (simp add: k k2)
qed

lemma neighbours_sym: "k2 \<in> set (neighbours k) \<longleftrightarrow> k \<in> set (neighbours k2)"
  unfolding neighbours_iff by (simp add: abs_minus_commute eq_commute)

lemma neighbours_irrefl: "k \<notin> set (neighbours k)"
  by (simp add: neighbours_iff)

lemma distinct_neighbours: "distinct (neighbours k)"
  by (cases k) (simp add: neighbours_list)

lemma distanceTo_sym: "distanceTo a b = distanceTo b a"
proof -
  have "(cx a - cx b) * (cx a - cx b) = (cx b - cx a) * (cx b - cx a)"
    and "(cy a - cy b) * (cy a - cy b) = (cy b - cy a) * (cy b - cy a)"
    by (simp_all add: algebra_simps)
  then show ?thesis by (simp add: distanceTo_def Let_def)
qed

lemma distanceTo_nonneg: "0 \<le> distanceTo a b"
  by (simp add: distanceTo_def Let_def)

lemma distanceTo_le_iff:
  "distanceTo a b \<le> r \<longleftrightarrow> 0 \<le> r \<and> (cx a - cx b)\<^sup>2 + (cy a - cy b)\<^sup>2 \<le> r\<^sup>2"
proof
  assume le: "distanceTo a b \<le> r"
  have "0 \<le> r" using le distanceTo_nonneg [of a b] by linarith
  moreover have "(cx a - cx b)\<^sup>2 + (cy a - cy b)\<^sup>2 \<le> r\<^sup>2"
    using sqrt_le_D [of "(cx a - cx b)\<^sup>2 + (cy a - cy b)\<^sup>2" r] le
    by (simp add: distanceTo_def Let_def power2_eq_square)
  ultimately show "0 \<le> r \<and> (cx a - cx b)\<^sup>2 + (cy a - cy b)\<^sup>2 \<le> r\<^sup>2" by simp
next
  assume "0 \<le> r \<and> (cx a - cx b)\<^sup>2 + (cy a - cy b)\<^sup>2 \<le> r\<^sup>2"
  then show "distanceTo a b \<le> r"
    using real_le_lsqrt [of r "(cx a - cx b)\<^sup>2 + (cy a - cy b)\<^sup>2"]
    by (simp add: distanceTo_def Let_def power2_eq_square)
qed

subsection \<open>The first loop of \<^verbatim>\<open>_mergeClusters\<close>\<close>

lemma wf_storeD: "wf_store h \<Longrightarrow> h a = Some c \<Longrightarrow> key c = a"
  unfolding wf_store_def by blast

lemma wf_grids_lookup:
  assumes "wf_grids grids h" "map_of grids k = Some a"
  shows "a = k \<and> h k \<noteq> None"
proof -
  from assms(2) have "(k, a) \<in> set grids" by (rule map_of_SomeD)
  with assms(1) show ?thesis by (fastforce simp: wf_grids_def)
qed

lemma wf_grids_mem:
  assumes "wf_grids grids h" "e \<in> set grids"
  shows "snd e = fst e" "h (fst e) \<noteq> None" "map_of grids (fst e) = Some (fst e)"
proof -
  from assms show a: "snd e = fst e" and "h (fst e) \<noteq> None" by (auto simp: wf_grids_def)
  from assms(1) have "distinct (map fst grids)" by (simp add: wf_grids_def)
  moreover from assms(2) have "(fst e, snd e) \<in> set grids" by simp
  ultimately have "map_of grids (fst e) = Some (snd e)" by (rule map_of_is_SomeI)
  with a show "map_of grids (fst e) = Some (fst e)" by simp
qed

lemma near_sym:
  assumes "near grids h r k k2" "map_of grids k \<noteq> None"
  shows "near grids h r k2 k"
  using assms
  by (auto simp: near_def neighbours_sym [of k2 k] distanceTo_sym split: option.splits)

lemma visitNeighbour_wf:
  assumes wf: "wf_grids grids h" "wf_store h"
    and c1: "h k = Some c1" and k2: "k2 \<in> set (neighbours k)"
  shows "visitNeighbour grids h r c1 k2 mv =
           (if near grids h r k k2 then (push (fst mv) k k2, insert k2 (snd mv)) else mv)"
proof (cases "map_of grids k2")
  case None
  then show ?thesis by (simp add: visitNeighbour_def near_def)
next
  case (Some a2)
  with wf(1) have a2: "a2 = k2" and "h k2 \<noteq> None" using wf_grids_lookup by blast+
  then obtain c2 where c2: "h k2 = Some c2" by blast
  from wf(2) c1 c2 have "key c1 = k" "key c2 = k2" by (blast dest: wf_storeD)+
  with Some a2 c1 c2 k2 show ?thesis by (simp add: visitNeighbour_def near_def)
qed

lemma fold_visitNeighbour_wf:
  assumes wf: "wf_grids grids h" "wf_store h"
    and c1: "h k = Some c1" and ks: "set ks \<subseteq> set (neighbours k)"
  shows "fold (visitNeighbour grids h r c1) ks mv =
           (fold (\<lambda>t m. push m k t) (filter (near grids h r k) ks) (fst mv),
            snd mv \<union> set (filter (near grids h r k) ks))"
  using ks
proof (induction ks arbitrary: mv)
  case Nil
  then show ?case by simp
next
  case (Cons k2 ks)
  then have k2: "k2 \<in> set (neighbours k)" and rest: "set ks \<subseteq> set (neighbours k)" by auto
  show ?case
    by (simp add: visitNeighbour_wf [OF wf c1 k2] Cons.IH [OF rest])
qed

lemma visitCell_wf:
  assumes wf: "wf_grids grids h" "wf_store h" and e: "e \<in> set grids"
  shows "visitCell grids h r e mv =
           (if fst e \<in> snd mv then mv
            else (fold (\<lambda>t m. push m (fst e) t) (nearList grids h r (fst e)) (fst mv),
                  snd mv \<union> set (nearList grids h r (fst e))))"
proof -
  from wf(1) e have se: "snd e = fst e" and "h (fst e) \<noteq> None" by (rule wf_grids_mem)+
  then obtain c1 where c1: "h (fst e) = Some c1" by blast
  with wf(2) have kc: "key c1 = fst e" by (blast dest: wf_storeD)
  show ?thesis
    using fold_visitNeighbour_wf [OF wf c1 subset_refl, of r mv]
    by (simp add: visitCell_def se c1 kc nearList_def)
qed

lemma map_of_push:
  "map_of (push m k t) = (map_of m)(k \<mapsto> (case map_of m k of None \<Rightarrow> [] | Some cs \<Rightarrow> cs) @ [t])"
  by (simp add: push_def update_conv')

lemma distinct_push: "distinct (map fst m) \<Longrightarrow> distinct (map fst (push m k t))"
  by (simp add: push_def distinct_update)

lemma map_of_fold_push:
  "map_of (fold (\<lambda>t m. push m k t) ts m) =
     (if ts = [] then map_of m
      else (map_of m)(k \<mapsto> (case map_of m k of None \<Rightarrow> [] | Some cs \<Rightarrow> cs) @ ts))"
proof (induction ts arbitrary: m)
  case Nil
  then show ?case by simp
next
  case (Cons t ts)
  show ?case by (auto simp: Cons.IH map_of_push fun_eq_iff)
qed

lemma distinct_fold_push:
  "distinct (map fst m) \<Longrightarrow> distinct (map fst (fold (\<lambda>t m. push m k t) ts m))"
  by (induction ts arbitrary: m) (simp_all add: distinct_push)

lemma set_nearList: "t \<in> set (nearList grids h r k) \<longleftrightarrow> near grids h r k t"
  by (auto simp: nearList_def near_def)

lemma inv1_visitCell:
  assumes wf: "wf_grids grids h" "wf_store h" and e: "e \<in> set grids"
    and fresh: "fst e \<notin> D" and inv: "inv1 grids h r D mv"
  shows "inv1 grids h r (insert (fst e) D) (visitCell grids h r e mv)"
proof (cases "fst e \<in> snd mv")
  case True
  then have "visitCell grids h r e mv = mv" by (simp add: visitCell_wf [OF wf e])
  moreover from inv True have "inv1 grids h r (insert (fst e) D) mv"
    unfolding inv1_def by blast
  ultimately show ?thesis by simp
next
  case False
  define k where "k = fst e"
  define N where "N = nearList grids h r k"
  define m where "m = fst mv"
  define v where "v = snd mv"
  have kv: "k \<notin> v" using False by (simp add: k_def v_def)
  have kD: "k \<notin> D" using fresh by (simp add: k_def)
  have kg: "map_of grids k \<noteq> None" using wf_grids_mem(3) [OF wf(1) e] by (simp add: k_def)
  have I1: "distinct (map fst m)"
    and I2: "\<And>k' ts. map_of m k' = Some ts \<Longrightarrow>
               k' \<in> D \<and> k' \<notin> v \<and> map_of grids k' \<noteq> None \<and> ts = nearList grids h r k' \<and> ts \<noteq> []"
    and I3: "\<And>k'. k' \<in> D \<Longrightarrow> k' \<notin> v \<Longrightarrow> set (nearList grids h r k') \<subseteq> v"
    and I3': "\<And>k'. k' \<in> D \<Longrightarrow> k' \<notin> v \<Longrightarrow> nearList grids h r k' \<noteq> [] \<Longrightarrow> map_of m k' \<noteq> None"
    and I4: "\<And>t. t \<in> v \<Longrightarrow> \<exists>k'. map_of m k' \<noteq> None \<and> t \<in> set (nearList grids h r k')"
    using inv unfolding inv1_def m_def v_def by blast+
  have mk: "map_of m k = None"
  proof (cases "map_of m k")
    case (Some ts)
    with I2 kD show ?thesis by blast
  qed simp
  have kN: "k \<notin> set N"
    by (simp add: N_def set_nearList near_def neighbours_irrefl)
  have oldN: "k' \<notin> set N" if "k' \<in> D" "k' \<notin> v" for k'
  proof
    assume "k' \<in> set N"
    then have "near grids h r k k'" by (simp add: N_def set_nearList)
    then have "near grids h r k' k" using kg by (rule near_sym)
    then have "k \<in> set (nearList grids h r k')" by (simp add: set_nearList)
    with I3 [OF that] kv show False by blast
  qed
  define m' where "m' = fold (\<lambda>t m. push m k t) N m"
  have step: "visitCell grids h r e mv = (m', v \<union> set N)"
    using False by (simp add: visitCell_wf [OF wf e] m'_def N_def k_def m_def v_def)
  have m'_map: "map_of m' = (if N = [] then map_of m else (map_of m)(k \<mapsto> N))"
    by (simp add: m'_def map_of_fold_push mk)
  have J1: "distinct (map fst m')" using I1 by (simp add: m'_def distinct_fold_push)
  have J2: "k' \<in> insert k D \<and> k' \<notin> v \<union> set N \<and> map_of grids k' \<noteq> None \<and>
            ts = nearList grids h r k' \<and> ts \<noteq> []"
    if "map_of m' k' = Some ts" for k' ts
  proof (cases "k' = k \<and> N \<noteq> []")
    case True
    with that have "ts = N" by (simp add: m'_map)
    with True kv kN kg show ?thesis by (simp add: N_def)
  next
    case False
    with that have old: "map_of m k' = Some ts" by (auto simp: m'_map split: if_splits)
    from I2 [OF old] oldN [of k'] show ?thesis by blast
  qed
  have J3: "set (nearList grids h r k') \<subseteq> v \<union> set N"
    if "k' \<in> insert k D" "k' \<notin> v \<union> set N" for k'
  proof (cases "k' = k")
    case True
    then show ?thesis by (simp add: N_def)
  next
    case False
    with that I3 [of k'] show ?thesis by blast
  qed
  have J3': "map_of m' k' \<noteq> None"
    if "k' \<in> insert k D" "k' \<notin> v \<union> set N" "nearList grids h r k' \<noteq> []" for k'
  proof (cases "k' = k")
    case True
    with that(3) have "N \<noteq> []" by (simp add: N_def)
    with True show ?thesis by (simp add: m'_map)
  next
    case False
    with that I3' [of k'] have "map_of m k' \<noteq> None" by blast
    then show ?thesis by (simp add: m'_map)
  qed
  have J4: "\<exists>k'. map_of m' k' \<noteq> None \<and> t \<in> set (nearList grids h r k')"
    if "t \<in> v \<union> set N" for t
  proof (cases "t \<in> set N")
    case True
    then have "N \<noteq> []" by auto
    then have "map_of m' k \<noteq> None" by (simp add: m'_map)
    with True show ?thesis unfolding N_def by blast
  next
    case False
    with that have "t \<in> v" by simp
    from I4 [OF this] obtain k' where "map_of m k' \<noteq> None" "t \<in> set (nearList grids h r k')"
      by blast
    moreover from this(1) have "map_of m' k' \<noteq> None" by (simp add: m'_map)
    ultimately show ?thesis by blast
  qed
  show ?thesis
    unfolding step inv1_def k_def [symmetric]
    using J1 J2 J3 J3' J4 by simp
qed

lemma inv1_fold:
  assumes wf: "wf_grids grids h" "wf_store h"
  shows "set es \<subseteq> set grids \<Longrightarrow> distinct (map fst es) \<Longrightarrow> D \<inter> fst ` set es = {} \<Longrightarrow>
         inv1 grids h r D mv \<Longrightarrow>
         inv1 grids h r (D \<union> fst ` set es) (fold (visitCell grids h r) es mv)"
proof (induction es arbitrary: D mv)
  case Nil
  then show ?case by simp
next
  case (Cons e es)
  from Cons.prems have e: "e \<in> set grids" and fresh: "fst e \<notin> D" by auto
  have step: "inv1 grids h r (insert (fst e) D) (visitCell grids h r e mv)"
    using wf e fresh Cons.prems(4) by (rule inv1_visitCell)
  have "inv1 grids h r (insert (fst e) D \<union> fst ` set es)
          (fold (visitCell grids h r) es (visitCell grids h r e mv))"
    using Cons.prems step by (intro Cons.IH) auto
  then show ?case by simp
qed

lemma inv1_findMerging:
  assumes wf: "wf_grids grids h" "wf_store h"
  shows "inv1 grids h r (fst ` set grids) (findMerging grids h r)"
proof -
  have "inv1 grids h r {} ([], {})" by (simp add: inv1_def)
  moreover from wf(1) have "distinct (map fst grids)" by (simp add: wf_grids_def)
  ultimately have "inv1 grids h r ({} \<union> fst ` set grids) (fold (visitCell grids h r) grids ([], {}))"
    using wf by (intro inv1_fold) auto
  then show ?thesis by (simp add: findMerging_def)
qed

subsection \<open>The second loop of \<^verbatim>\<open>_mergeClusters\<close>\<close>

lemma map_of_keys: "map_of xs k \<noteq> None \<longleftrightarrow> k \<in> fst ` set xs"
  by (simp add: map_of_eq_None_iff)

lemma absorb_wf:
  assumes wf: "wf_grids grids h" "wf_store h"
    and t: "h t = Some tobj" and g: "h g = Some grid"
  shows "absorb g t (grids, h, cm) =
           (if t \<in> fst ` set grids
            then (AList.delete t grids, h(g \<mapsto> merged grid tobj), AList.update t g cm)
            else (grids, h, cm))"
proof -
  from wf(2) t have "key tobj = t" by (rule wf_storeD)
  then show ?thesis
    by (simp add: absorb_def t g merged_def map_of_keys [symmetric])
qed

lemma set_delete: "set (AList.delete k xs) = {e \<in> set xs. fst e \<noteq> k}"
  by (auto simp: AList.delete_eq)

lemma set_update_subset:
  "distinct (map fst xs) \<Longrightarrow> set (AList.update k v xs) \<subseteq> insert (k, v) {e \<in> set xs. fst e \<noteq> k}"
  by (induction xs) (auto simp: image_iff)

lemma inv2_absorb:
  assumes inv: "inv2 G0 M s" and gM: "(g, ts) \<in> set M" and tts: "t \<in> set ts"
    and ok: "mergingOK G0 M"
  shows "inv2 G0 M (absorb g t s)"
proof -
  obtain grids h cm where s: "s = (grids, h, cm)" by (cases s)
  from inv have wf: "wf_grids grids h" "wf_store h" and dom: "\<forall>k \<in> G0. h k \<noteq> None"
    and K: "fst ` set M \<subseteq> fst ` set grids" and G: "fst ` set grids \<subseteq> G0"
    and cmk: "fst ` set cm = G0" and cmd: "distinct (map fst cm)"
    and cm: "\<forall>e \<in> set cm. (snd e = fst e \<and> fst e \<in> fst ` set grids) \<or>
                        (\<exists>ts. (snd e, ts) \<in> set M \<and> fst e \<in> set ts)"
    by (simp_all add: inv2_def s)
  from ok gM have okg: "g \<in> G0 \<and> set ts \<subseteq> G0 \<and> set ts \<inter> fst ` set M = {}"
    unfolding mergingOK_def by fastforce
  with tts have tG: "t \<in> G0" and gG: "g \<in> G0" and tK: "t \<notin> fst ` set M"
    by blast+
  from dom tG gG obtain tobj grid where t: "h t = Some tobj" and g: "h g = Some grid" by blast
  show ?thesis
  proof (cases "t \<in> fst ` set grids")
    case False
    then have "absorb g t s = s" by (simp add: s absorb_wf [OF wf t g])
    with inv show ?thesis by simp
  next
    case True
    let ?grids = "AList.delete t grids" and ?h = "h(g \<mapsto> merged grid tobj)"
    let ?cm = "AList.update t g cm"
    have step: "absorb g t s = (?grids, ?h, ?cm)"
      using True by (simp add: s absorb_wf [OF wf t g])
    have keys: "fst ` set ?grids = fst ` set grids - {t}"
      by (auto simp: set_delete)
    have A: "wf_grids ?grids ?h"
      using wf(1) by (auto simp: wf_grids_def distinct_delete set_delete)
    have "key (merged grid tobj) = g" using wf_storeD [OF wf(2) g] by (simp add: merged_def)
    then have B: "wf_store ?h" using wf(2) unfolding wf_store_def by auto
    have C: "\<forall>k \<in> G0. ?h k \<noteq> None" using dom by simp
    have D: "fst ` set M \<subseteq> fst ` set ?grids" using K tK by (auto simp: keys)
    have E: "fst ` set ?grids \<subseteq> G0" using G by (auto simp: keys)
    have F: "fst ` set ?cm = G0" using cmk tG by (auto simp: dom_update)
    have F': "distinct (map fst ?cm)" using cmd by (rule distinct_update)
    have H: "(snd e = fst e \<and> fst e \<in> fst ` set ?grids) \<or>
             (\<exists>ts. (snd e, ts) \<in> set M \<and> fst e \<in> set ts)" if "e \<in> set ?cm" for e
    proof (cases "e = (t, g)")
      case True
      with gM tts show ?thesis by auto
    next
      case False
      with that set_update_subset [OF cmd, of t g] have "e \<in> set cm" "fst e \<noteq> t" by auto
      with cm show ?thesis by (auto simp: keys)
    qed
    show ?thesis unfolding step inv2_def using A B C D E F F' H by simp
  qed
qed

lemma inv2_fold_absorb:
  assumes ok: "mergingOK G0 M" and gM: "(g, ts) \<in> set M"
  shows "set us \<subseteq> set ts \<Longrightarrow> inv2 G0 M s \<Longrightarrow> inv2 G0 M (fold (absorb g) us s)"
proof (induction us arbitrary: s)
  case Nil
  then show ?case by simp
next
  case (Cons t us)
  then have "inv2 G0 M (absorb g t s)"
    using inv2_absorb [OF _ gM _ ok, of s t] by simp
  with Cons show ?case by simp
qed

lemma inv2_recenter:
  assumes "inv2 G0 M (grids, h, cm)"
  shows "inv2 G0 M (grids, recenter g h, cm)"
proof (cases "h g")
  case None
  with assms show ?thesis by (simp add: recenter_def)
next
  case (Some grid)
  let ?h = "h(g \<mapsto> grid\<lparr>center := multi (sum_coord grid) (1 / real (count grid))\<rparr>)"
  have r: "recenter g h = ?h" by (simp add: recenter_def Some)
  from assms have wf: "wf_grids grids h" "wf_store h" by (simp_all add: inv2_def)
  have A: "wf_grids grids ?h" using wf(1) by (auto simp: wf_grids_def)
  have B: "wf_store ?h" using wf(2) wf_storeD [OF wf(2) Some] unfolding wf_store_def by auto
  show ?thesis using assms A B unfolding r inv2_def by simp
qed

lemma inv2_mergeInto:
  assumes ok: "mergingOK G0 M" and e: "e \<in> set M" and inv: "inv2 G0 M s"
  shows "inv2 G0 M (mergeInto e s)"
proof (cases "map_of (fst s) (fst e)")
  case None
  with inv show ?thesis by (simp add: mergeInto_def)
next
  case (Some g)
  obtain grids h cm where s: "s = (grids, h, cm)" by (cases s)
  from inv have wf: "wf_grids grids h" by (simp add: inv2_def s)
  from Some wf have g: "g = fst e" using wf_grids_lookup by (fastforce simp: s)
  with e have gM: "(g, snd e) \<in> set M" by simp
  have "inv2 G0 M (fold (absorb g) (snd e) s)"
    using ok gM subset_refl inv by (rule inv2_fold_absorb)
  then show ?thesis
    by (auto simp: mergeInto_def Some split: prod.splits intro: inv2_recenter)
qed

lemma inv2_fold_mergeInto:
  assumes ok: "mergingOK G0 M"
  shows "set es \<subseteq> set M \<Longrightarrow> inv2 G0 M s \<Longrightarrow> inv2 G0 M (fold mergeInto es s)"
proof (induction es arbitrary: s)
  case Nil
  then show ?case by simp
next
  case (Cons e es)
  then have "inv2 G0 M (mergeInto e s)" using inv2_mergeInto [OF ok, of e s] by simp
  with Cons show ?case by simp
qed

lemma fold_invariant:
  assumes "\<And>x s. x \<in> set xs \<Longrightarrow> P s \<Longrightarrow> P (f x s)" and "P s"
  shows "P (fold f xs s)"
  using assms by (induction xs arbitrary: s) auto

lemma mergingOK_findMerging:
  assumes wf: "wf_grids grids h" "wf_store h"
  shows "mergingOK (fst ` set grids) (fst (findMerging grids h r))"
proof -
  define M where "M = fst (findMerging grids h r)"
  define v where "v = snd (findMerging grids h r)"
  from inv1_findMerging [OF wf, of r]
  have d: "distinct (map fst M)"
    and I2: "\<And>k ts. map_of M k = Some ts \<Longrightarrow>
               k \<in> fst ` set grids \<and> k \<notin> v \<and> ts = nearList grids h r k"
    and I3: "\<And>k. k \<in> fst ` set grids \<Longrightarrow> k \<notin> v \<Longrightarrow> set (nearList grids h r k) \<subseteq> v"
    unfolding inv1_def M_def v_def by blast+
  have "fst e \<in> fst ` set grids \<and> set (snd e) \<subseteq> fst ` set grids \<and> set (snd e) \<inter> fst ` set M = {}"
    if e: "e \<in> set M" for e
  proof -
    from d e have m: "map_of M (fst e) = Some (snd e)" by (cases e) simp
    from I2 [OF m] have k: "fst e \<in> fst ` set grids" "fst e \<notin> v"
      and ts: "snd e = nearList grids h r (fst e)" by simp_all
    from I3 [OF k] ts have sub: "set (snd e) \<subseteq> v" by simp
    have "t \<in> fst ` set grids" if "t \<in> set (snd e)" for t
    proof -
      from that have "map_of grids t \<noteq> None" unfolding ts by (simp add: set_nearList near_def)
      then show ?thesis by (simp only: map_of_keys)
    qed
    then have "set (snd e) \<subseteq> fst ` set grids" by blast
    moreover have "k' \<notin> v" if "k' \<in> fst ` set M" for k'
    proof -
      from that obtain ts' where "(k', ts') \<in> set M" by auto
      with d have "map_of M k' = Some ts'" by simp
      from I2 [OF this] show ?thesis by simp
    qed
    ultimately show ?thesis using k(1) sub by blast
  qed
  then show ?thesis unfolding mergingOK_def M_def by blast
qed

lemma inv2_init:
  assumes wf: "wf_grids grids h" "wf_store h" and ok: "mergingOK (fst ` set grids) M"
  shows "inv2 (fst ` set grids) M (grids, h, grids)"
proof -
  from wf(1) have "\<forall>k \<in> fst ` set grids. h k \<noteq> None" by (auto simp: wf_grids_def)
  moreover from ok have "fst ` set M \<subseteq> fst ` set grids" unfolding mergingOK_def by blast
  moreover from wf(1) have "distinct (map fst grids)" "\<forall>e \<in> set grids. snd e = fst e"
    by (auto simp: wf_grids_def)
  ultimately show ?thesis using wf by (auto simp: inv2_def)
qed

lemma mergeClusters_fold:
  "(clusters (mergeClusters grids h r), objects (mergeClusters grids h r),
    clusterMap (mergeClusters grids h r)) =
     fold mergeInto (fst (findMerging grids h r)) (grids, h, grids)"
  by (simp add: mergeClusters_def Let_def split: prod.splits)

lemma inv2_mergeClusters:
  assumes wf: "wf_grids grids h" "wf_store h"
  shows "inv2 (fst ` set grids) (fst (findMerging grids h r))
           (clusters (mergeClusters grids h r), objects (mergeClusters grids h r),
            clusterMap (mergeClusters grids h r))"
proof -
  let ?M = "fst (findMerging grids h r)"
  have ok: "mergingOK (fst ` set grids) ?M" using wf by (rule mergingOK_findMerging)
  have "inv2 (fst ` set grids) ?M (fold mergeInto ?M (grids, h, grids))"
    using ok subset_refl inv2_init [OF wf ok] by (rule inv2_fold_mergeInto)
  then show ?thesis by (simp only: mergeClusters_fold)
qed


subsection \<open>Bucketing\<close>


lemma addPoint_wf:
  assumes wf: "wf_grids grids h"
  shows "addPoint sumProperty mn r preT preCache p (grids, h) =
           (let k = cellOf mn r (px p) (py p) in
            case h k of
              Some grid \<Rightarrow> if k \<in> fst ` set grids then (grids, h(k \<mapsto> grown sumProperty grid p))
                            else (grids @ [(k, k)], h(k \<mapsto> newCell sumProperty mn preT preCache k p))
            | None \<Rightarrow> (grids @ [(k, k)], h(k \<mapsto> newCell sumProperty mn preT preCache k p)))"
proof -
  define k where "k = cellOf mn r (px p) (py p)"
  show ?thesis
  proof (cases "map_of grids k")
    case None
    then have "k \<notin> fst ` set grids" by (simp add: map_of_eq_None_iff)
    with None show ?thesis
      by (simp add: addPoint_def Let_def k_def [symmetric] newCell_def split: option.splits)
  next
    case (Some a)
    with wf have a: "a = k" and hk: "h k \<noteq> None" using wf_grids_lookup by blast+
    from hk obtain grid where grid: "h k = Some grid" by blast
    from Some have kin: "k \<in> fst ` set grids" using map_of_keys [of grids k] by simp
    show ?thesis
      using Some kin
      by (simp add: addPoint_def Let_def k_def [symmetric] grown_def a grid)
  qed
qed

lemma wf_store_upd:
  assumes "wf_store h" "key c = k"
  shows "wf_store (h(k \<mapsto> c))"
  using assms unfolding wf_store_def by auto

lemma wf_grids_upd:
  assumes "wf_grids grids h"
  shows "wf_grids grids (h(k \<mapsto> c))"
  using assms unfolding wf_grids_def by auto

lemma sum_cnt_upd_in:
  assumes k: "k \<in> S" and fin: "finite S" and hk: "h k = Some c"
  shows "sum (cnt (h(k \<mapsto> c'))) S + count c = sum (cnt h) S + count c'"
proof -
  define h' where "h' = h(k \<mapsto> c')"
  have same: "sum (cnt h') (S - {k}) = sum (cnt h) (S - {k})"
    by (rule sum.cong) (auto simp: cnt_def h'_def)
  have "sum (cnt h') S = cnt h' k + sum (cnt h') (S - {k})" using fin k by (rule sum.remove)
  moreover have "sum (cnt h) S = cnt h k + sum (cnt h) (S - {k})" using fin k by (rule sum.remove)
  moreover have "cnt h' k = count c'" "cnt h k = count c" by (simp_all add: cnt_def h'_def hk)
  ultimately show ?thesis using same unfolding h'_def by linarith
qed

lemma sum_cnt_upd_out:
  assumes k: "k \<notin> S"
  shows "sum (cnt (h(k \<mapsto> c'))) S = sum (cnt h) S"
  using k by (intro sum.cong) (auto simp: cnt_def)

lemma bucketInv_addPoint:
  assumes inv: "bucketInv mn r pts gs"
  shows "bucketInv mn r (pts @ [p]) (addPoint sumProperty mn r preT preCache p gs)"
proof -
  obtain grids h where gs: "gs = (grids, h)" by (cases gs)
  define k where "k = cellOf mn r (px p) (py p)"
  from inv have wf: "wf_grids grids h" "wf_store h"
    and keys: "fst ` set grids = (\<lambda>p. cellOf mn r (px p) (py p)) ` set pts"
    and total: "sum (cnt h) (fst ` set grids) = length pts"
    unfolding bucketInv_def gs fst_conv snd_conv by blast+
  show ?thesis
  proof (cases "k \<in> fst ` set grids")
    case True
    with wf(1) have "h k \<noteq> None" by (auto simp: wf_grids_def)
    then obtain grid where grid: "h k = Some grid" by blast
    define h' where "h' = h(k \<mapsto> grown sumProperty grid p)"
    have step: "addPoint sumProperty mn r preT preCache p gs = (grids, h')"
      using True grid by (simp add: gs addPoint_wf [OF wf(1)] k_def [symmetric] h'_def)
    have A: "wf_grids grids h'" unfolding h'_def using wf(1) by (rule wf_grids_upd)
    have "key (grown sumProperty grid p) = k" using wf_storeD [OF wf(2) grid] by (simp add: grown_def)
    then have B: "wf_store h'" unfolding h'_def using wf(2) by (intro wf_store_upd)
    have C: "fst ` set grids = (\<lambda>p. cellOf mn r (px p) (py p)) ` set (pts @ [p])"
      using keys True by (auto simp: k_def)
    have "sum (cnt h') (fst ` set grids) + count grid
            = sum (cnt h) (fst ` set grids) + count (grown sumProperty grid p)"
      unfolding h'_def using True _ grid by (rule sum_cnt_upd_in) simp
    moreover have "count (grown sumProperty grid p) = count grid + 1" by (simp add: grown_def)
    ultimately have D: "sum (cnt h') (fst ` set grids) = length (pts @ [p])" using total by simp
    show ?thesis unfolding step bucketInv_def fst_conv snd_conv using A B C D by blast
  next
    case False
    define c where "c = newCell sumProperty mn preT preCache k p"
    define h' where "h' = h(k \<mapsto> c)"
    define grids' where "grids' = grids @ [(k, k)]"
    have step: "addPoint sumProperty mn r preT preCache p gs = (grids', h')"
      using False
      by (simp add: gs addPoint_wf [OF wf(1)] k_def [symmetric] h'_def c_def grids'_def
               split: option.splits)
    have A: "wf_grids grids' h'"
      using wf(1) False unfolding h'_def grids'_def wf_grids_def by auto
    have "key c = k" by (simp add: c_def newCell_def)
    with wf(2) have B: "wf_store h'" unfolding h'_def by (rule wf_store_upd)
    have k': "fst ` set grids' = insert k (fst ` set grids)" by (simp add: grids'_def)
    have C: "fst ` set grids' = (\<lambda>p. cellOf mn r (px p) (py p)) ` set (pts @ [p])"
      unfolding k' using keys by (auto simp: k_def)
    have "sum (cnt h') (fst ` set grids') = cnt h' k + sum (cnt h') (fst ` set grids)"
      unfolding k' using False by (simp add: sum.insert)
    moreover have "sum (cnt h') (fst ` set grids) = sum (cnt h) (fst ` set grids)"
      unfolding h'_def using False by (rule sum_cnt_upd_out)
    moreover have "cnt h' k = 1" by (simp add: cnt_def h'_def c_def newCell_def)
    ultimately have D: "sum (cnt h') (fst ` set grids') = length (pts @ [p])" using total by simp
    show ?thesis unfolding step bucketInv_def fst_conv snd_conv using A B C D by blast
  qed
qed

lemma bucketPoints_snoc:
  "bucketPoints sumProperty mn r preT preCache (pts @ [p]) =
     addPoint sumProperty mn r preT preCache p (bucketPoints sumProperty mn r preT preCache pts)"
  by (simp add: bucketPoints_def)

lemma bucketInv_bucketPoints:
  "bucketInv mn r pts (bucketPoints sumProperty mn r preT preCache pts)"
proof (induction pts rule: rev_induct)
  case Nil
  show ?case by (simp add: bucketInv_def bucketPoints_def wf_grids_def wf_store_def)
next
  case (snoc p pts)
  then show ?case by (simp only: bucketPoints_snoc bucketInv_addPoint)
qed

subsection \<open>Counts through the merge\<close>

lemma keys_delete: "fst ` set (AList.delete k xs) = fst ` set xs - {k}"
  by (auto simp: set_delete)





subsection \<open>\<^verbatim>\<open>_computeZoomGrid\<close>\<close>

lemma computeZoomGrid_unfold:
  "computeZoomGrid st zoom =
     (case markerExtent st of
        None \<Rightarrow> (None, st)
      | Some ext \<Rightarrow>
          (let preT = (if getResolution (theMap st) (zoom - 1) \<noteq> 0
                       then Some (cellSize st (zoom - 1)) else None);
               pre = preLevel st zoom;
               gs = bucketPoints (textSumPropertyName (options (snd pre))) (getMin ext)
                      (cellSize st zoom) preT (fst pre) (markerPoints (snd pre))
           in (Some (mergeClusters (fst gs) (snd gs) (cellSize st zoom / 2)), snd pre)))"
  by (subst computeZoomGrid.simps) (simp add: preLevel_def Let_def split: option.splits)

lemma computeZoomGrid_frame: "frame (snd (computeZoomGrid st zoom)) st"
proof (induction st zoom rule: computeZoomGrid.induct)
  case (1 st zoom)
  show ?case
  proof (cases "markerExtent st")
    case None
    then show ?thesis by (simp add: computeZoomGrid_unfold frame_def)
  next
    case (Some ext)
    have pre: "frame (snd (preLevel st zoom)) st"
    proof (cases "clusterCache st (zoom - 1) = None \<and> getMinZoom (theMap st) \<le> zoom - 1")
      case True
      with "1.IH" [OF Some refl refl] have "frame (snd (computeZoomGrid st (zoom - 1))) st" by simp
      with True show ?thesis by (auto simp: preLevel_def frame_def split: prod.splits)
    next
      case False
      then show ?thesis by (auto simp: preLevel_def frame_def)
    qed
    show ?thesis using Some pre by (simp add: computeZoomGrid_unfold Let_def frame_def)
  qed
qed

lemma preLevel_frame: "frame (snd (preLevel st zoom)) st"
  using computeZoomGrid_frame [of st "zoom - 1"]
  by (auto simp: preLevel_def frame_def split: prod.splits)

lemma preLevel_cache: "clusterCache (snd (preLevel st zoom)) (zoom - 1) = fst (preLevel st zoom)"
  by (auto simp: preLevel_def split: prod.splits)

lemma computeZoomGrid_Some:
  assumes "markerExtent st = Some ext"
  shows "computeZoomGrid st zoom = (Some (levelOf st zoom ext), snd (preLevel st zoom))"
  using assms preLevel_frame [of st zoom]
  by (simp add: computeZoomGrid_unfold Let_def levelOf_def frame_def)

lemma computeZoomGrid_None:
  assumes "markerExtent st = None"
  shows "computeZoomGrid st zoom = (None, st)"
  using assms by (simp add: computeZoomGrid_unfold)


subsection \<open>Consistency of the objects\<close>

lemma storeAllD: "storeAll P h \<Longrightarrow> h a = Some c \<Longrightarrow> P c"
  unfolding storeAll_def by blast

lemma storeAll_upd: "storeAll P h \<Longrightarrow> P c \<Longrightarrow> storeAll P (h(a \<mapsto> c))"
  unfolding storeAll_def by auto

lemma sumCoords_append: "sumCoords (xs @ ys) = add (sumCoords xs) (sumCoords ys)"
  by (simp add: sumCoords_def add_def)

lemma preOK_newCell:
  assumes "b \<longrightarrow> prjCoordinates (geometry p) = Coordinate (px p) (py p)"
  shows "preOK b (newCell sumProperty mn preT preCache k p)"
  using assms by (auto simp: preOK_def newCell_def sumCoords_def)

lemma centerOK_newCell: "centerOK (newCell sumProperty mn preT preCache k p)"
  by (simp add: centerOK_def newCell_def multi_def)

lemma preOK_grown:
  assumes "preOK b grid" and "b \<longrightarrow> prjCoordinates (geometry p) = Coordinate (px p) (py p)"
  shows "preOK b (grown sumProperty grid p)"
  using assms by (auto simp: preOK_def grown_def sumCoords_def add_def)

lemma centerOK_grown: "centerOK (grown sumProperty grid p)"
  by (simp add: centerOK_def grown_def)

lemma preOK_merged: "preOK b grid \<Longrightarrow> preOK b tobj \<Longrightarrow> preOK b (merged grid tobj)"
  by (auto simp: preOK_def merged_def sumCoords_append)

text \<open>Bucketing: every object is consistent.\<close>

lemma objects_addPoint:
  assumes wf: "wf_grids grids h"
    and pre: "storeAll (preOK b) h" and cen: "storeAll centerOK h"
    and p: "b \<longrightarrow> prjCoordinates (geometry p) = Coordinate (px p) (py p)"
  shows "storeAll (preOK b) (snd (addPoint sumProperty mn r preT preCache p (grids, h)))"
    and "storeAll centerOK (snd (addPoint sumProperty mn r preT preCache p (grids, h)))"
proof -
  define k where "k = cellOf mn r (px p) (py p)"
  have new: "preOK b (newCell sumProperty mn preT preCache k p)"
    "centerOK (newCell sumProperty mn preT preCache k p)"
    using p by (simp_all add: preOK_newCell centerOK_newCell)
  have grow: "preOK b (grown sumProperty grid p)" "centerOK (grown sumProperty grid p)"
    if "h k = Some grid" for grid
    using storeAllD [OF pre that] p by (simp_all add: preOK_grown centerOK_grown)
  show "storeAll (preOK b) (snd (addPoint sumProperty mn r preT preCache p (grids, h)))"
    using pre new(1) grow(1)
    by (auto simp: addPoint_wf [OF wf] k_def [symmetric] Let_def storeAll_upd split: option.splits)
  show "storeAll centerOK (snd (addPoint sumProperty mn r preT preCache p (grids, h)))"
    using cen new(2) grow(2)
    by (auto simp: addPoint_wf [OF wf] k_def [symmetric] Let_def storeAll_upd split: option.splits)
qed

lemma objects_bucketPoints:
  assumes "b \<longrightarrow> indexed pts"
  shows "storeAll (preOK b) (snd (bucketPoints sumProperty mn r preT preCache pts)) \<and>
         storeAll centerOK (snd (bucketPoints sumProperty mn r preT preCache pts))"
  using assms
proof (induction pts rule: rev_induct)
  case Nil
  show ?case by (simp add: bucketPoints_def storeAll_def)
next
  case (snoc p pts)
  let ?gs = "bucketPoints sumProperty mn r preT preCache pts"
  from snoc.prems have p: "b \<longrightarrow> prjCoordinates (geometry p) = Coordinate (px p) (py p)"
    and rest: "b \<longrightarrow> indexed pts" by (auto simp: indexed_def)
  from snoc.IH [OF rest] have pre: "storeAll (preOK b) (snd ?gs)" and cen: "storeAll centerOK (snd ?gs)"
    by simp_all
  have wf: "wf_grids (fst ?gs) (snd ?gs)"
    using bucketInv_bucketPoints [of mn r pts sumProperty preT preCache] by (simp add: bucketInv_def)
  from objects_addPoint [OF wf pre cen p, of sumProperty mn r preT preCache]
  show ?case by (simp add: bucketPoints_snoc)
qed

text \<open>Merging: what one step does to the store.\<close>

lemma absorb_store:
  "fst (snd (absorb g t (grids, h, cm))) = h \<or>
   (\<exists>grid tobj. h g = Some grid \<and> h t = Some tobj \<and>
      fst (snd (absorb g t (grids, h, cm))) = h(g \<mapsto> merged grid tobj))"
  by (auto simp: absorb_def merged_def split: option.splits)

lemma preOK_absorb:
  assumes "storeAll (preOK b) (fst (snd s))"
  shows "storeAll (preOK b) (fst (snd (absorb g t s)))"
proof -
  obtain grids h cm where s: "s = (grids, h, cm)" by (cases s)
  from assms have all: "storeAll (preOK b) h" by (simp add: s)
  from absorb_store [of g t grids h cm] show ?thesis
  proof
    assume "fst (snd (absorb g t (grids, h, cm))) = h"
    with all show ?thesis by (simp add: s)
  next
    assume "\<exists>grid tobj. h g = Some grid \<and> h t = Some tobj \<and>
      fst (snd (absorb g t (grids, h, cm))) = h(g \<mapsto> merged grid tobj)"
    then obtain grid tobj where g: "h g = Some grid" and t: "h t = Some tobj"
      and eq: "fst (snd (absorb g t (grids, h, cm))) = h(g \<mapsto> merged grid tobj)" by blast
    have "preOK b (merged grid tobj)"
      using storeAllD [OF all g] storeAllD [OF all t] by (rule preOK_merged)
    with all show ?thesis unfolding s eq by (rule storeAll_upd)
  qed
qed

lemma others_absorb:
  assumes "a \<noteq> g"
  shows "fst (snd (absorb g t s)) a = fst (snd s) a"
proof -
  obtain grids h cm where s: "s = (grids, h, cm)" by (cases s)
  from absorb_store [of g t grids h cm] assms show ?thesis by (auto simp: s)
qed

lemma objects_mergeInto:
  assumes pre: "storeAll (preOK b) (fst (snd s))" and cen: "storeAll centerOK (fst (snd s))"
  shows "storeAll (preOK b) (fst (snd (mergeInto e s))) \<and>
         storeAll centerOK (fst (snd (mergeInto e s)))"
proof (cases "map_of (fst s) (fst e)")
  case None
  with assms show ?thesis by (simp add: mergeInto_def)
next
  case (Some g)
  define s' where "s' = fold (absorb g) (snd e) s"
  have pre': "storeAll (preOK b) (fst (snd s'))"
    unfolding s'_def using pre by (rule fold_invariant [rotated]) (rule preOK_absorb)
  have others0: "\<forall>a. a \<noteq> g \<longrightarrow> fst (snd s') a = fst (snd s) a"
    unfolding s'_def
    by (rule fold_invariant [where P = "\<lambda>s'. \<forall>a. a \<noteq> g \<longrightarrow> fst (snd s') a = fst (snd s) a"])
       (simp_all add: others_absorb)
  have others: "fst (snd s') a = fst (snd s) a" if "a \<noteq> g" for a
    using others0 that by blast
  obtain grids h cm where s': "s' = (grids, h, cm)" by (cases s')
  have m: "mergeInto e s = (grids, recenter g h, cm)"
    by (simp add: mergeInto_def Some s'_def [symmetric] s')
  from pre' have preh: "storeAll (preOK b) h" by (simp add: s')
  have A: "storeAll (preOK b) (recenter g h)"
  proof (cases "h g")
    case None
    with preh show ?thesis by (simp add: recenter_def)
  next
    case (Some grid)
    from storeAllD [OF preh Some]
    have "preOK b (grid\<lparr>center := multi (sum_coord grid) (1 / real (count grid))\<rparr>)"
      unfolding preOK_def by auto
    with preh show ?thesis unfolding recenter_def Some option.case by (rule storeAll_upd)
  qed
  have B: "storeAll centerOK (recenter g h)"
    unfolding storeAll_def
  proof (intro allI impI)
    fix a c assume ac: "recenter g h a = Some c"
    show "centerOK c"
    proof (cases "a = g")
      case True
      with ac show ?thesis by (auto simp: recenter_def centerOK_def split: option.splits)
    next
      case False
      with ac have "h a = Some c" by (auto simp: recenter_def split: option.splits)
      with others [OF False] have "fst (snd s) a = Some c" by (simp add: s')
      with cen show ?thesis by (rule storeAllD)
    qed
  qed
  show ?thesis using A B by (simp add: m)
qed

lemma objects_mergeClusters:
  assumes pre: "storeAll (preOK b) h" and cen: "storeAll centerOK h"
  shows "storeAll (preOK b) (objects (mergeClusters grids h r)) \<and>
         storeAll centerOK (objects (mergeClusters grids h r))"
proof -
  let ?M = "fst (findMerging grids h r)"
  have "storeAll (preOK b) (fst (snd (fold mergeInto ?M (grids, h, grids)))) \<and>
        storeAll centerOK (fst (snd (fold mergeInto ?M (grids, h, grids))))"
  proof (rule fold_invariant
          [where P = "\<lambda>s. storeAll (preOK b) (fst (snd s)) \<and> storeAll centerOK (fst (snd s))"])
    fix e and s :: "ref dict \<times> store \<times> ref dict"
    assume "storeAll (preOK b) (fst (snd s)) \<and> storeAll centerOK (fst (snd s))"
    then show "storeAll (preOK b) (fst (snd (mergeInto e s))) \<and>
               storeAll centerOK (fst (snd (mergeInto e s)))"
      using objects_mergeInto [of b s e] by blast
  next
    show "storeAll (preOK b) (fst (snd (grids, h, grids))) \<and>
          storeAll centerOK (fst (snd (grids, h, grids)))"
      using pre cen by simp
  qed
  then show ?thesis by (simp add: mergeClusters_fold [symmetric])
qed

lemmas example_defs = markerAt_def layerOf_def initGridSystem_def indexGeometry_def combine_def
  cellSize_def

lemma scenarioA_extent: "markerExtent scenarioA \<noteq> None"
  by (simp add: scenarioA_def example_defs)

lemma scenarioA_cellSize: "cellSize scenarioA 0 = 10"
  by (simp add: scenarioA_def example_defs)


lemma indexed_initGridSystem: "indexed (markerPoints (initGridSystem st))"
proof -
  have "indexed (snd (fold indexGeometry gs ep))" if "indexed (snd ep)" for gs ep
    using that
  proof (induction gs arbitrary: ep)
    case Nil
    then show ?case by simp
  next
    case (Cons g gs)
    have "indexed (snd (indexGeometry g ep))"
      using Cons.prems by (auto simp: indexGeometry_def indexed_def Let_def)
    then show ?case using Cons.IH by simp
  qed
  from this [of "(None, [])" "geoList st"] show ?thesis
    by (simp add: initGridSystem_def indexed_def split: prod.splits)
qed

lemma levelOf_objects:
  assumes "b \<longrightarrow> indexed (markerPoints st)"
  shows "storeAll (preOK b) (objects (levelOf st zoom ext))"
    and "storeAll centerOK (objects (levelOf st zoom ext))"
    and "wf_grids (clusters (levelOf st zoom ext)) (objects (levelOf st zoom ext))"
proof -
  define preT where "preT = (if getResolution (theMap st) (zoom - 1) \<noteq> 0
                  then Some (cellSize st (zoom - 1)) else None)"
  define gs where "gs = bucketPoints (textSumPropertyName (options st)) (getMin ext)
     (cellSize st zoom) preT (fst (preLevel st zoom)) (markerPoints st)"
  have lv: "levelOf st zoom ext = mergeClusters (fst gs) (snd gs) (cellSize st zoom / 2)"
    by (simp add: levelOf_def Let_def gs_def preT_def)
  from objects_bucketPoints [OF assms]
  have "storeAll (preOK b) (snd gs)" "storeAll centerOK (snd gs)" by (simp_all add: gs_def)
  from objects_mergeClusters [OF this]
  show "storeAll (preOK b) (objects (levelOf st zoom ext))"
    and "storeAll centerOK (objects (levelOf st zoom ext))" by (simp_all add: lv)
  have "bucketInv (getMin ext) (cellSize st zoom) (markerPoints st) gs"
    unfolding gs_def by (rule bucketInv_bucketPoints)
  then have wf: "wf_grids (fst gs) (snd gs)" "wf_store (snd gs)" unfolding bucketInv_def by blast+
  from inv2_mergeClusters [OF wf]
  show "wf_grids (clusters (levelOf st zoom ext)) (objects (levelOf st zoom ext))"
    by (simp add: lv inv2_def)
qed

lemma centerOK_mergeInto:
  assumes "map_of (fst s) (fst e) = Some g" and "fst (snd (mergeInto e s)) g = Some c"
  shows "centerOK c"
proof -
  obtain grids h cm where f: "fold (absorb g) (snd e) s = (grids, h, cm)"
    by (cases "fold (absorb g) (snd e) s")
  with assms have "recenter g h g = Some c" by (simp add: mergeInto_def)
  then show ?thesis by (auto simp: recenter_def centerOK_def split: option.splits)
qed

subsection \<open>What the merge lists hold, and what is deleted\<close>

lemma findMerging_lists:
  assumes wf: "wf_grids grids h" "wf_store h" and e: "e \<in> set (fst (findMerging grids h r))"
  shows "snd e = nearList grids h r (fst e)"
proof -
  from inv1_findMerging [OF wf, of r]
  have d: "distinct (map fst (fst (findMerging grids h r)))"
    and I2: "\<And>k ts. map_of (fst (findMerging grids h r)) k = Some ts \<Longrightarrow> ts = nearList grids h r k"
    unfolding inv1_def by blast+
  from e have "(fst e, snd e) \<in> set (fst (findMerging grids h r))" by simp
  with d have "map_of (fst (findMerging grids h r)) (fst e) = Some (snd e)"
    by (rule map_of_is_SomeI)
  then show ?thesis by (rule I2)
qed

lemma near_listed:
  assumes wf: "wf_grids grids h" "wf_store h"
    and n: "near grids h r k k2" and k: "k \<in> fst ` set grids"
  shows "\<exists>e \<in> set (fst (findMerging grids h r)). k \<in> set (snd e) \<or> k2 \<in> set (snd e)"
proof -
  define M where "M = fst (findMerging grids h r)"
  define v where "v = snd (findMerging grids h r)"
  from inv1_findMerging [OF wf, of r]
  have I2: "\<And>k ts. map_of M k = Some ts \<Longrightarrow> ts = nearList grids h r k"
    and I3: "\<And>k. k \<in> fst ` set grids \<Longrightarrow> k \<notin> v \<Longrightarrow> set (nearList grids h r k) \<subseteq> v"
    and I4: "\<And>t. t \<in> v \<Longrightarrow> \<exists>k. map_of M k \<noteq> None \<and> t \<in> set (nearList grids h r k)"
    unfolding inv1_def M_def v_def by blast+
  have listed: "\<exists>e \<in> set M. t \<in> set (snd e)" if "t \<in> v" for t
  proof -
    from I4 [OF that] obtain k' ts where m: "map_of M k' = Some ts"
      and t: "t \<in> set (nearList grids h r k')" by auto
    from I2 [OF m] t have "t \<in> set ts" by simp
    moreover from m have "(k', ts) \<in> set M" by (rule map_of_SomeD)
    ultimately show ?thesis by force
  qed
  from n have "k2 \<in> set (nearList grids h r k)" by (simp add: set_nearList)
  with I3 [OF k] have "k \<in> v \<or> k2 \<in> v" by blast
  with listed show ?thesis unfolding M_def by blast
qed

lemma absorb_deleted:
  assumes inv: "inv2 G0 M s" and gM: "(g, ts) \<in> set M" and tts: "t \<in> set ts"
    and ok: "mergingOK G0 M"
  shows "fst ` set (fst (absorb g t s)) \<subseteq> fst ` set (fst s)"
    and "t \<notin> fst ` set (fst (absorb g t s))"
proof -
  obtain grids h cm where s: "s = (grids, h, cm)" by (cases s)
  from inv have wf: "wf_grids grids h" "wf_store h" and dom: "\<forall>k \<in> G0. h k \<noteq> None"
    unfolding inv2_def s by simp_all
  from ok gM have okg: "g \<in> G0 \<and> set ts \<subseteq> G0 \<and> set ts \<inter> fst ` set M = {}"
    unfolding mergingOK_def by fastforce
  with tts have tG: "t \<in> G0" and gG: "g \<in> G0" by blast+
  from dom tG gG obtain tobj grid where t: "h t = Some tobj" and g: "h g = Some grid" by blast
  show "fst ` set (fst (absorb g t s)) \<subseteq> fst ` set (fst s)"
    by (auto simp: s absorb_wf [OF wf t g] keys_delete)
  show "t \<notin> fst ` set (fst (absorb g t s))"
    by (simp add: s absorb_wf [OF wf t g] keys_delete)
qed

lemma fold_absorb_deleted:
  assumes ok: "mergingOK G0 M" and gM: "(g, ts) \<in> set M"
  shows "set us \<subseteq> set ts \<Longrightarrow> inv2 G0 M s \<Longrightarrow>
         fst ` set (fst (fold (absorb g) us s)) \<subseteq> fst ` set (fst s) - set us"
proof (induction us arbitrary: s)
  case Nil
  then show ?case by simp
next
  case (Cons t us)
  then have t: "t \<in> set ts" and us: "set us \<subseteq> set ts" by auto
  have inv': "inv2 G0 M (absorb g t s)" using Cons.prems(2) gM t ok by (rule inv2_absorb)
  from Cons.IH [OF us inv'] absorb_deleted [OF Cons.prems(2) gM t ok]
  show ?case by auto
qed

lemma fst_mergeInto:
  assumes "map_of (fst s) (fst e) = Some g"
  shows "fst (mergeInto e s) = fst (fold (absorb g) (snd e) s)"
  using assms by (simp add: mergeInto_def split: prod.splits)

lemma mergeInto_deleted:
  assumes ok: "mergingOK G0 M" and e: "e \<in> set M" and inv: "inv2 G0 M s"
  shows "fst ` set (fst (mergeInto e s)) \<subseteq> fst ` set (fst s) - set (snd e)"
proof -
  obtain grids h cm where s: "s = (grids, h, cm)" by (cases s)
  from inv have wf: "wf_grids grids h" and K: "fst ` set M \<subseteq> fst ` set grids"
    unfolding inv2_def s by simp_all
  from e K have "fst e \<in> fst ` set grids" by auto
  then obtain a where "(fst e, a) \<in> set grids" by auto
  with wf have m: "map_of grids (fst e) = Some (fst e)"
    using wf_grids_mem(3) [OF wf, of "(fst e, a)"] by simp
  from e have gM: "(fst e, snd e) \<in> set M" by simp
  from m have "fst (mergeInto e s) = fst (fold (absorb (fst e)) (snd e) s)"
    by (intro fst_mergeInto) (simp add: s)
  with fold_absorb_deleted [OF ok gM subset_refl inv]
  show ?thesis by simp
qed

lemma fold_mergeInto_deleted:
  assumes ok: "mergingOK G0 M"
  shows "set es \<subseteq> set M \<Longrightarrow> inv2 G0 M s \<Longrightarrow>
         fst ` set (fst (fold mergeInto es s)) \<subseteq> fst ` set (fst s) - \<Union> (set ` snd ` set es)"
proof (induction es arbitrary: s)
  case Nil
  then show ?case by simp
next
  case (Cons e es)
  then have e: "e \<in> set M" and es: "set es \<subseteq> set M" by auto
  have inv': "inv2 G0 M (mergeInto e s)" using ok e Cons.prems(2) by (rule inv2_mergeInto)
  from Cons.IH [OF es inv'] mergeInto_deleted [OF ok e Cons.prems(2)]
  have "fst ` set (fst (fold mergeInto es (mergeInto e s)))
          \<subseteq> fst ` set (fst s) - (set (snd e) \<union> \<Union> (set ` snd ` set es))"
    by blast
  then show ?case by simp
qed

lemma listed_deleted:
  assumes wf: "wf_grids grids h" "wf_store h"
    and e: "e \<in> set (fst (findMerging grids h r))" and t: "t \<in> set (snd e)"
  shows "t \<notin> fst ` set (clusters (mergeClusters grids h r))"
proof -
  let ?M = "fst (findMerging grids h r)"
  have ok: "mergingOK (fst ` set grids) ?M" using wf by (rule mergingOK_findMerging)
  from fold_mergeInto_deleted [OF ok subset_refl inv2_init [OF wf ok]]
  have "fst ` set (clusters (mergeClusters grids h r)) \<subseteq> fst ` set grids - \<Union> (set ` snd ` set ?M)"
    by (simp add: mergeClusters_fold [symmetric])
  with e t show ?thesis by blast
qed

lemma absorbed_near:
  assumes wf: "wf_grids grids h" "wf_store h"
    and e: "e \<in> set (clusterMap (mergeClusters grids h r))" and ne: "snd e \<noteq> fst e"
  shows "near grids h r (snd e) (fst e)"
proof -
  let ?M = "fst (findMerging grids h r)"
  from inv2_mergeClusters [OF wf, of r] e
  have "(snd e = fst e \<and> fst e \<in> fst ` set (clusters (mergeClusters grids h r))) \<or>
        (\<exists>ts. (snd e, ts) \<in> set ?M \<and> fst e \<in> set ts)"
    unfolding inv2_def by auto
  with ne obtain ts where m: "(snd e, ts) \<in> set ?M" and t: "fst e \<in> set ts" by blast
  from findMerging_lists [OF wf m] have "ts = nearList grids h r (snd e)" by simp
  with t show ?thesis by (simp add: set_nearList)
qed





lemma absorber_snoc:
  "absorber (es @ [e]) k = (if k \<in> set (snd e) \<and> k \<notin> listed es then fst e else absorber es k)"
proof (induction es)
  case Nil
  show ?case by (simp add: absorber_def listed_def)
next
  case (Cons a es)
  then show ?case by (auto simp: absorber_def listed_def split: option.splits)
qed

lemma listed_snoc: "listed (es @ [e]) = listed es \<union> set (snd e)"
  by (auto simp: listed_def)

lemma inv3_absorb:
  assumes inv: "inv2 G0 M s" and gM: "(g, ts) \<in> set M" and tts: "t \<in> set ts"
    and ok: "mergingOK G0 M" and i3: "inv3 G0 es g U s"
  shows "inv3 G0 es g (insert t U) (absorb g t s)"
proof -
  obtain grids h cm where s: "s = (grids, h, cm)" by (cases s)
  from inv have wf: "wf_grids grids h" "wf_store h" and dom: "\<forall>k \<in> G0. h k \<noteq> None"
    unfolding inv2_def s by simp_all
  from ok gM have okg: "g \<in> G0 \<and> set ts \<subseteq> G0 \<and> set ts \<inter> fst ` set M = {}"
    unfolding mergingOK_def by fastforce
  with tts have tG: "t \<in> G0" and gG: "g \<in> G0" by blast+
  from dom tG gG obtain tobj grid where t: "h t = Some tobj" and g: "h g = Some grid" by blast
  from i3 have keys: "fst ` set grids = G0 - listed es - U"
    and cm: "\<And>k. k \<in> G0 \<Longrightarrow>
               map_of cm k = Some (if k \<in> U \<and> k \<notin> listed es then g else absorber es k)"
    unfolding inv3_def s by simp_all
  show ?thesis
  proof (cases "t \<in> fst ` set grids")
    case False
    then have same: "absorb g t (grids, h, cm) = (grids, h, cm)" by (simp add: absorb_wf [OF wf t g])
    from False keys tG have "t \<in> listed es \<or> t \<in> U" by blast
    then have "(k \<in> insert t U \<and> k \<notin> listed es) = (k \<in> U \<and> k \<notin> listed es)" for k by blast
    moreover from False keys have "G0 - listed es - insert t U = G0 - listed es - U" by blast
    ultimately show ?thesis using keys cm unfolding s same inv3_def by simp
  next
    case True
    with keys have tn: "t \<notin> listed es" "t \<notin> U" by blast+
    have step: "absorb g t (grids, h, cm) =
        (AList.delete t grids, h(g \<mapsto> merged grid tobj), AList.update t g cm)"
      using True by (simp add: absorb_wf [OF wf t g])
    have A: "fst ` set (AList.delete t grids) = G0 - listed es - insert t U"
      using keys by (auto simp: keys_delete)
    have B: "map_of (AList.update t g cm) k =
               Some (if k \<in> insert t U \<and> k \<notin> listed es then g else absorber es k)"
      if "k \<in> G0" for k
      using cm [OF that] tn by (simp add: update_conv')
    show ?thesis unfolding s step inv3_def using A B by simp
  qed
qed

lemma inv3_fold_absorb:
  assumes ok: "mergingOK G0 M" and gM: "(g, ts) \<in> set M"
  shows "set us \<subseteq> set ts \<Longrightarrow> inv2 G0 M s \<Longrightarrow> inv3 G0 es g U s \<Longrightarrow>
         inv3 G0 es g (U \<union> set us) (fold (absorb g) us s)"
proof (induction us arbitrary: s U)
  case Nil
  then show ?case by simp
next
  case (Cons t us)
  then have t: "t \<in> set ts" and us: "set us \<subseteq> set ts" by auto
  have inv': "inv2 G0 M (absorb g t s)" using Cons.prems(2) gM t ok by (rule inv2_absorb)
  have i3': "inv3 G0 es g (insert t U) (absorb g t s)"
    using Cons.prems(2) gM t ok Cons.prems(3) by (rule inv3_absorb)
  from Cons.IH [OF us inv' i3'] show ?case by simp
qed

lemma inv3_mergeInto:
  assumes ok: "mergingOK G0 M" and e: "e \<in> set M" and inv: "inv2 G0 M s"
    and i3: "inv3 G0 es g0 {} s"
  shows "inv3 G0 (es @ [e]) g1 {} (mergeInto e s)"
proof -
  obtain grids h cm where s: "s = (grids, h, cm)" by (cases s)
  from inv have wf: "wf_grids grids h" and K: "fst ` set M \<subseteq> fst ` set grids"
    unfolding inv2_def s by simp_all
  from e K have "fst e \<in> fst ` set grids" by auto
  then obtain a where "(fst e, a) \<in> set grids" by auto
  with wf have m: "map_of grids (fst e) = Some (fst e)"
    using wf_grids_mem(3) [OF wf, of "(fst e, a)"] by simp
  from e have gM: "(fst e, snd e) \<in> set M" by simp
  from i3 have "inv3 G0 es (fst e) {} s" by (simp add: inv3_def)
  from inv3_fold_absorb [OF ok gM subset_refl inv this]
  have f: "inv3 G0 es (fst e) (set (snd e)) (fold (absorb (fst e)) (snd e) s)" by simp
  obtain grids' h' cm' where r: "fold (absorb (fst e)) (snd e) s = (grids', h', cm')"
    by (cases "fold (absorb (fst e)) (snd e) s")
  have mi: "mergeInto e s = (grids', recenter (fst e) h', cm')"
    by (simp add: mergeInto_def s m r [unfolded s])
  from f show ?thesis
    unfolding mi r inv3_def by (auto simp: absorber_snoc listed_snoc)
qed

lemma inv3_fold_mergeInto:
  assumes ok: "mergingOK G0 M"
  shows "set es \<subseteq> set M \<Longrightarrow> inv2 G0 M s \<Longrightarrow> inv3 G0 [] g {} s \<Longrightarrow>
         inv3 G0 es g {} (fold mergeInto es s) \<and> inv2 G0 M (fold mergeInto es s)"
proof (induction es rule: rev_induct)
  case Nil
  then show ?case by simp
next
  case (snoc e es)
  then have e: "e \<in> set M" and es: "set es \<subseteq> set M" by auto
  from snoc.IH [OF es snoc.prems(2,3)]
  have i3: "inv3 G0 es g {} (fold mergeInto es s)" and i2: "inv2 G0 M (fold mergeInto es s)"
    by simp_all
  have "inv3 G0 (es @ [e]) g {} (mergeInto e (fold mergeInto es s))"
    using ok e i2 i3 by (rule inv3_mergeInto)
  moreover have "inv2 G0 M (mergeInto e (fold mergeInto es s))"
    using ok e i2 by (rule inv2_mergeInto)
  ultimately show ?case by simp
qed

lemma clusterMap_absorber:
  assumes wf: "wf_grids grids h" "wf_store h" and k: "k \<in> fst ` set grids"
  shows "map_of (clusterMap (mergeClusters grids h r)) k = Some (absorber (fst (findMerging grids h r)) k)"
    and "k \<in> fst ` set (clusters (mergeClusters grids h r)) \<longleftrightarrow> k \<notin> listed (fst (findMerging grids h r))"
proof -
  let ?M = "fst (findMerging grids h r)"
  have ok: "mergingOK (fst ` set grids) ?M" using wf by (rule mergingOK_findMerging)
  have d: "distinct (map fst grids)" and self: "\<forall>e \<in> set grids. snd e = fst e"
    using wf(1) by (auto simp: wf_grids_def)
  have "map_of grids k' = Some k'" if "k' \<in> fst ` set grids" for k'
  proof -
    from that obtain e where "e \<in> set grids" "fst e = k'" by auto
    with wf_grids_mem(3) [OF wf(1) this(1)] show ?thesis by simp
  qed
  then have init: "inv3 (fst ` set grids) [] k {} (grids, h, grids)"
    by (simp add: inv3_def listed_def absorber_def)
  from inv3_fold_mergeInto [OF ok subset_refl inv2_init [OF wf ok] init]
  have "inv3 (fst ` set grids) ?M k {} (fold mergeInto ?M (grids, h, grids))" by simp
  then have i3: "inv3 (fst ` set grids) ?M k {}
      (clusters (mergeClusters grids h r), objects (mergeClusters grids h r),
       clusterMap (mergeClusters grids h r))"
    by (simp only: mergeClusters_fold)
  from i3 k show "map_of (clusterMap (mergeClusters grids h r)) k = Some (absorber ?M k)"
    unfolding inv3_def prod.case by auto
  from i3 k show "k \<in> fst ` set (clusters (mergeClusters grids h r)) \<longleftrightarrow> k \<notin> listed ?M"
    unfolding inv3_def prod.case by auto
qed

lemmas bucket_defs = bucketPoints_def addPoint_def cellOf_def sumProp_def parentOf_def Let_def

lemmas merge_defs = mergeClusters_def findMerging_def visitCell_def visitNeighbour_def
  neighbours_def push_def mergeInto_def absorb_def recenter_def add_def multi_def
  distanceTo_le_iff

lemma boundaryGrid_eval:
  "fst boundaryGrid = [((0, 0), (0, 0)), ((0, 1), (0, 1)), ((1, 1), (1, 1))]"
  "map_option center (snd boundaryGrid (0, 1)) = Some (Coordinate 8 10)"
  "map_option center (snd boundaryGrid (1, 1)) = Some (Coordinate 13 10)"
  by (simp_all add: boundaryGrid_def example_defs bucket_defs)

lemma boundary_near: "near (fst boundaryGrid) (snd boundaryGrid) 5 (0, 1) (1, 1)"
  using boundaryGrid_eval(2,3)
  by (auto simp: near_def boundaryGrid_eval(1) neighbours_def distanceTo_le_iff split: option.splits)

lemma boundary_M:
  "fst (findMerging (fst boundaryGrid) (snd boundaryGrid) 5) = [((0, 1), [(1, 1)])]"
  by (simp add: boundaryGrid_def example_defs bucket_defs merge_defs)

lemma chainGrid_eval:
  "fst chainGrid = [((0, 0), (0, 0)), ((1, 1), (1, 1)), ((2, 2), (2, 2)), ((2, 1), (2, 1))]"
  "map_option center (snd chainGrid (1, 1)) = Some (Coordinate 16 19)"
  "map_option center (snd chainGrid (2, 2)) = Some (Coordinate 20 20)"
  "map_option center (snd chainGrid (2, 1)) = Some (Coordinate 24 19)"
  by (simp_all add: chainGrid_def chainLayer_def example_defs bucket_defs)


subsection \<open>Parents\<close>

lemma find_snoc:
  "find P (xs @ [x]) = (case find P xs of None \<Rightarrow> (if P x then Some x else None) | Some y \<Rightarrow> Some y)"
  by (induction xs) auto

lemma find_None_image: "find (\<lambda>q. f q = k) xs = None \<longleftrightarrow> k \<notin> f ` set xs"
  by (auto simp: find_None_iff)

lemma parentInv_addPoint:
  assumes inv: "bucketInv mn r pts (grids, h)"
    and dom: "dom h = fst ` set grids"
    and par: "parentInv mn r preT preCache pts h"
  shows "parentInv mn r preT preCache (pts @ [p])
           (snd (addPoint sumProperty mn r preT preCache p (grids, h)))"
    and "dom (snd (addPoint sumProperty mn r preT preCache p (grids, h)))
           = fst ` set (fst (addPoint sumProperty mn r preT preCache p (grids, h)))"
proof -
  define k where "k = cellOf mn r (px p) (py p)"
  from inv have wf: "wf_grids grids h"
    and keys: "fst ` set grids = (\<lambda>p. cellOf mn r (px p) (py p)) ` set pts"
    unfolding bucketInv_def fst_conv snd_conv by blast+
  have P: "\<And>k' c. h k' = Some c \<Longrightarrow>
             parent c = (case firstPoint mn r pts k' of
                           None \<Rightarrow> None | Some q \<Rightarrow> parentOf mn preT preCache q)"
    using par unfolding parentInv_def by blast
  have fp: "firstPoint mn r (pts @ [p]) k' =
              (case firstPoint mn r pts k' of
                 None \<Rightarrow> (if k = k' then Some p else None) | Some y \<Rightarrow> Some y)" for k'
    by (simp add: firstPoint_def find_snoc k_def)
  show "parentInv mn r preT preCache (pts @ [p])
           (snd (addPoint sumProperty mn r preT preCache p (grids, h)))"
  proof (cases "k \<in> fst ` set grids")
    case True
    with dom obtain grid where grid: "h k = Some grid" by blast
    have step: "snd (addPoint sumProperty mn r preT preCache p (grids, h))
                  = h(k \<mapsto> grown sumProperty grid p)"
      using True grid by (simp add: addPoint_wf [OF wf] k_def [symmetric])
    have some: "firstPoint mn r pts k' \<noteq> None" if "h k' \<noteq> None" for k'
    proof -
      from that dom keys have "k' \<in> (\<lambda>p. cellOf mn r (px p) (py p)) ` set pts" by blast
      then show ?thesis unfolding firstPoint_def by (simp add: find_None_image)
    qed
    show ?thesis
      unfolding step parentInv_def
    proof (intro allI impI)
      fix k' c assume c: "(h(k \<mapsto> grown sumProperty grid p)) k' = Some c"
      show "parent c = (case firstPoint mn r (pts @ [p]) k' of
                          None \<Rightarrow> None | Some q \<Rightarrow> parentOf mn preT preCache q)"
      proof (cases "k' = k")
        case True
        with c have "parent c = parent grid" by (auto simp: grown_def)
        also have "\<dots> = (case firstPoint mn r pts k of
                          None \<Rightarrow> None | Some q \<Rightarrow> parentOf mn preT preCache q)"
          using grid by (rule P)
        finally show ?thesis using some [of k] grid True by (auto simp: fp)
      next
        case False
        with c have hk: "h k' = Some c" by simp
        from P [OF hk] some [of k'] hk show ?thesis by (auto simp: fp)
      qed
    qed
  next
    case False
    have step: "snd (addPoint sumProperty mn r preT preCache p (grids, h))
                  = h(k \<mapsto> newCell sumProperty mn preT preCache k p)"
      using False by (simp add: addPoint_wf [OF wf] k_def [symmetric] split: option.splits)
    from False keys have none: "firstPoint mn r pts k = None"
      unfolding firstPoint_def by (simp add: find_None_image)
    have some: "firstPoint mn r pts k' \<noteq> None" if "h k' \<noteq> None" for k'
    proof -
      from that dom keys have "k' \<in> (\<lambda>p. cellOf mn r (px p) (py p)) ` set pts" by blast
      then show ?thesis unfolding firstPoint_def by (simp add: find_None_image)
    qed
    show ?thesis
      unfolding step parentInv_def
    proof (intro allI impI)
      fix k' c assume c: "(h(k \<mapsto> newCell sumProperty mn preT preCache k p)) k' = Some c"
      show "parent c = (case firstPoint mn r (pts @ [p]) k' of
                          None \<Rightarrow> None | Some q \<Rightarrow> parentOf mn preT preCache q)"
      proof (cases "k' = k")
        case True
        with c have "parent c = parentOf mn preT preCache p" by (auto simp: newCell_def)
        then show ?thesis using none True by (simp add: fp)
      next
        case False
        with c have hk: "h k' = Some c" by simp
        from P [OF hk] some [of k'] hk show ?thesis by (auto simp: fp)
      qed
    qed
  qed
  show "dom (snd (addPoint sumProperty mn r preT preCache p (grids, h)))
           = fst ` set (fst (addPoint sumProperty mn r preT preCache p (grids, h)))"
    using dom
    by (auto simp: addPoint_wf [OF wf] k_def [symmetric] Let_def split: option.splits)
qed

lemma parentInv_bucketPoints:
  "parentInv mn r preT preCache pts (snd (bucketPoints sumProperty mn r preT preCache pts)) \<and>
   dom (snd (bucketPoints sumProperty mn r preT preCache pts))
     = fst ` set (fst (bucketPoints sumProperty mn r preT preCache pts))"
proof (induction pts rule: rev_induct)
  case Nil
  show ?case by (simp add: bucketPoints_def parentInv_def)
next
  case (snoc p pts)
  obtain grids h where gs: "bucketPoints sumProperty mn r preT preCache pts = (grids, h)"
    by (cases "bucketPoints sumProperty mn r preT preCache pts")
  have inv: "bucketInv mn r pts (grids, h)"
    using bucketInv_bucketPoints [of mn r pts sumProperty preT preCache] by (simp add: gs)
  from snoc.IH have par: "parentInv mn r preT preCache pts h" and dom: "dom h = fst ` set grids"
    by (simp_all add: gs)
  from parentInv_addPoint [OF inv dom par, where p = p and sumProperty = sumProperty]
  show ?case by (simp add: bucketPoints_snoc gs)
qed

lemma parent_absorb:
  "map_option parent (fst (snd (absorb g t s)) a) = map_option parent (fst (snd s) a) \<and>
   map_option key (fst (snd (absorb g t s)) a) = map_option key (fst (snd s) a)"
proof -
  obtain grids h cm where s: "s = (grids, h, cm)" by (cases s)
  from absorb_store [of g t grids h cm] show ?thesis
    by (auto simp: s merged_def)
qed

lemma parent_recenter:
  "map_option parent (recenter g h a) = map_option parent (h a) \<and>
   map_option key (recenter g h a) = map_option key (h a)"
  by (auto simp: recenter_def split: option.splits)

lemma parent_mergeInto:
  "map_option parent (fst (snd (mergeInto e s)) a) = map_option parent (fst (snd s) a) \<and>
   map_option key (fst (snd (mergeInto e s)) a) = map_option key (fst (snd s) a)"
proof (cases "map_of (fst s) (fst e)")
  case None
  then show ?thesis by (simp add: mergeInto_def)
next
  case (Some g)
  have "map_option parent (fst (snd (fold (absorb g) (snd e) s)) a) = map_option parent (fst (snd s) a) \<and>
        map_option key (fst (snd (fold (absorb g) (snd e) s)) a) = map_option key (fst (snd s) a)"
    by (rule fold_invariant
         [where P = "\<lambda>s'. map_option parent (fst (snd s') a) = map_option parent (fst (snd s) a) \<and>
                          map_option key (fst (snd s') a) = map_option key (fst (snd s) a)"])
       (simp_all add: parent_absorb)
  then show ?thesis
    by (auto simp: mergeInto_def Some parent_recenter split: prod.splits)
qed

lemma parent_mergeClusters:
  "map_option parent (objects (mergeClusters grids h r) a) = map_option parent (h a) \<and>
   map_option key (objects (mergeClusters grids h r) a) = map_option key (h a)"
proof -
  let ?M = "fst (findMerging grids h r)"
  have "map_option parent (fst (snd (fold mergeInto ?M (grids, h, grids))) a)
          = map_option parent (fst (snd (grids, h, grids)) a) \<and>
        map_option key (fst (snd (fold mergeInto ?M (grids, h, grids))) a)
          = map_option key (fst (snd (grids, h, grids)) a)"
    by (rule fold_invariant
         [where P = "\<lambda>s'. map_option parent (fst (snd s') a)
                            = map_option parent (fst (snd (grids, h, grids)) a) \<and>
                          map_option key (fst (snd s') a)
                            = map_option key (fst (snd (grids, h, grids)) a)"])
       (simp_all add: parent_mergeInto)
  then show ?thesis by (simp add: mergeClusters_fold [symmetric])
qed

lemma parentLayer_extent:
  "markerExtent parentLayer = Some \<lparr> xmin = 0, ymin = 0, xmax = 39, ymax = 19 \<rparr>"
  by (simp add: parentLayer_def example_defs)

lemma parentLayer_cellSize: "cellSize parentLayer 1 = 10" "cellSize parentLayer 0 = 20"
  by (simp_all add: parentLayer_def example_defs)

lemma parentLayer_pre0: "preLevel parentLayer 0 = (None, parentLayer)"
  by (simp add: preLevel_def parentLayer_def example_defs)

lemma parentLayer_level0:
  "clusterMap (levelOf parentLayer 0 \<lparr> xmin = 0, ymin = 0, xmax = 39, ymax = 19 \<rparr>)
     = [((0, 0), (0, 0)), ((1, 0), (1, 0))]"
  by (simp add: levelOf_def parentLayer_pre0 parentLayer_cellSize getMin_def)
     (simp add: parentLayer_def example_defs bucket_defs merge_defs power_divide)

lemma parentLayer_pre1:
  "fst (preLevel parentLayer 1)
     = Some (levelOf parentLayer 0 \<lparr> xmin = 0, ymin = 0, xmax = 39, ymax = 19 \<rparr>)"
proof -
  have "clusterCache parentLayer 0 = None" "getMinZoom (theMap parentLayer) = 0"
    by (simp_all add: parentLayer_def example_defs)
  then show ?thesis
    by (simp add: preLevel_def computeZoomGrid_Some [OF parentLayer_extent])
qed

subsection \<open>No visible marker\<close>

lemma fold_indexGeometry_hidden:
  assumes "\<forall>g \<in> set gs. \<not> isVisible g"
  shows "fold indexGeometry gs ep = ep"
  using assms by (induction gs arbitrary: ep) (simp_all add: indexGeometry_def)

lemma initGridSystem_hidden:
  assumes "\<forall>g \<in> set (geoList st). \<not> isVisible g"
  shows "markerExtent (initGridSystem st) = None"
  by (simp add: initGridSystem_def fold_indexGeometry_hidden [OF assms])

lemma computeGrid_hidden:
  assumes "\<forall>g \<in> set (geoList st). \<not> isVisible g"
  shows "markerExtent (computeGrid (clearDataCache st)) = None"
    and "clusterCache (computeGrid (clearDataCache st)) z = None"
proof -
  define s1 where "s1 = initGridSystem (clearDataCache st)"
  have g: "\<forall>g \<in> set (geoList (clearDataCache st)). \<not> isVisible g"
    using assms by (simp add: clearDataCache_def)
  have e: "markerExtent s1 = None" unfolding s1_def using g by (rule initGridSystem_hidden)
  have c: "clusterCache s1 = (\<lambda>z. None)"
    by (simp add: s1_def initGridSystem_def clearDataCache_def split: prod.splits)
  have m: "markerExtent (clearDataCache st) = None" by (simp add: clearDataCache_def)
  have cg: "computeGrid (clearDataCache st) =
              s1\<lparr> clusterCache := (clusterCache s1)(getZoom (theMap (clearDataCache st)) := None) \<rparr>"
    by (simp add: computeGrid_def Let_def m s1_def [symmetric] e c computeZoomGrid_None)
  show "markerExtent (computeGrid (clearDataCache st)) = None" by (simp add: cg e)
  show "clusterCache (computeGrid (clearDataCache st)) z = None" by (simp add: cg c)
qed

subsection \<open>The reuse test of \<^verbatim>\<open>_computeGrid\<close>\<close>

lemma computeGrid_no_alias:
  "computeGrid st =
     (let zoom = getZoom (theMap st);
          st1 = (if markerExtent st = None then initGridSystem st else st)
      in if clusterCache st1 zoom = None
         then (case computeZoomGrid st1 zoom of
                 (res, st3) \<Rightarrow> st3\<lparr> clusterCache := (clusterCache st3)(zoom := res) \<rparr>)
         else st1)"
  by (simp add: computeGrid_def lengthOf_def Let_def split: option.splits)

lemma farLayer_indexed:
  "initGridSystem farLayer =
     farLayer\<lparr> markerExtent := Some \<lparr> xmin = 0, ymin = 0, xmax = 100, ymax = 100 \<rparr>,
               markerPoints := [\<lparr> px = 0, py = 0, pid = 0, geometry = markerAt 0 0 0 \<rparr>,
                                \<lparr> px = 100, py = 100, pid = 1, geometry = markerAt 1 100 100 \<rparr>] \<rparr>"
  by (simp add: farLayer_def layerOf_def initGridSystem_def indexGeometry_def combine_def markerAt_def)

lemma farLayer_computeGrid:
  "computeGrid farLayer =
     (initGridSystem farLayer)
       \<lparr> clusterCache := (\<lambda>z. None)
            (0 := Some (levelOf (initGridSystem farLayer) 0
                          \<lparr> xmin = 0, ymin = 0, xmax = 100, ymax = 100 \<rparr>)) \<rparr>"
proof -
  define f1 where "f1 = initGridSystem farLayer"
  have e: "markerExtent f1 = Some \<lparr> xmin = 0, ymin = 0, xmax = 100, ymax = 100 \<rparr>"
    and c: "clusterCache f1 = (\<lambda>z. None)" and m: "getMinZoom (theMap f1) = 0"
    by (simp_all add: f1_def farLayer_indexed) (simp_all add: farLayer_def layerOf_def)
  have p: "preLevel f1 0 = (None, f1)" by (simp add: preLevel_def c m)
  have "markerExtent farLayer = None" "getZoom (theMap farLayer) = 0"
    by (simp_all add: farLayer_def layerOf_def)
  then show ?thesis
    by (simp add: computeGrid_no_alias Let_def f1_def [symmetric] c computeZoomGrid_Some [OF e] p)
qed

lemma zoomedIn_fields:
  "markerExtent zoomedIn = Some \<lparr> xmin = 0, ymin = 0, xmax = 100, ymax = 100 \<rparr>"
  "markerPoints zoomedIn = [\<lparr> px = 0, py = 0, pid = 0, geometry = markerAt 0 0 0 \<rparr>,
                            \<lparr> px = 100, py = 100, pid = 1, geometry = markerAt 1 100 100 \<rparr>]"
  "getZoom (theMap zoomedIn) = 1" "getMinZoom (theMap zoomedIn) = 0" "getMaxZoom (theMap zoomedIn) = 3"
  "getResolution (theMap zoomedIn) = (\<lambda>z. if z = 0 then 2 else 1)"
  "maxClusterRadius (options zoomedIn) = 10" "textSumPropertyName (options zoomedIn) = None"
  "length (geoList zoomedIn) = 2"
  "clusterCache zoomedIn 1 = None"
  "clusterCache zoomedIn 0 = Some (levelOf (initGridSystem farLayer) 0
                          \<lparr> xmin = 0, ymin = 0, xmax = 100, ymax = 100 \<rparr>)"
  by (simp_all add: zoomedIn_def farLayer_computeGrid farLayer_indexed)
     (simp_all add: farLayer_def layerOf_def)

lemma farLayer_level0:
  "clusters (levelOf (initGridSystem farLayer) 0 \<lparr> xmin = 0, ymin = 0, xmax = 100, ymax = 100 \<rparr>)
     = [((0, 0), (0, 0)), ((5, 5), (5, 5))]"
  "clusterMap (levelOf (initGridSystem farLayer) 0 \<lparr> xmin = 0, ymin = 0, xmax = 100, ymax = 100 \<rparr>)
     = [((0, 0), (0, 0)), ((5, 5), (5, 5))]"
proof -
  have p: "preLevel (initGridSystem farLayer) 0 = (None, initGridSystem farLayer)"
    by (simp add: preLevel_def farLayer_indexed) (simp add: farLayer_def layerOf_def)
  have f: "cellSize (initGridSystem farLayer) 0 = 20" "cellSize (initGridSystem farLayer) (- 1) = 10"
    "getResolution (theMap (initGridSystem farLayer)) (- 1) \<noteq> 0"
    "textSumPropertyName (options (initGridSystem farLayer)) = None"
    by (simp_all add: cellSize_def farLayer_indexed) (simp_all add: farLayer_def layerOf_def)
  show "clusters (levelOf (initGridSystem farLayer) 0 \<lparr> xmin = 0, ymin = 0, xmax = 100, ymax = 100 \<rparr>)
     = [((0, 0), (0, 0)), ((5, 5), (5, 5))]"
    by (simp add: levelOf_def p f getMin_def Let_def)
       (simp add: farLayer_indexed bucket_defs merge_defs power_divide)
  show "clusterMap (levelOf (initGridSystem farLayer) 0 \<lparr> xmin = 0, ymin = 0, xmax = 100, ymax = 100 \<rparr>)
     = [((0, 0), (0, 0)), ((5, 5), (5, 5))]"
    by (simp add: levelOf_def p f getMin_def Let_def)
       (simp add: farLayer_indexed bucket_defs merge_defs power_divide)
qed

subsection \<open>The scan of \<^verbatim>\<open>identify\<close>\<close>





subsection \<open>The parents do not matter to the merge\<close>

lemma noParents_eqD:
  assumes "noParents h = noParents h'"
  shows "(h a = None \<longleftrightarrow> h' a = None)"
    and "h a = Some c \<Longrightarrow> \<exists>c'. h' a = Some c' \<and> c\<lparr> parent := None \<rparr> = c'\<lparr> parent := None \<rparr>"
proof -
  from assms have eq: "map_option (\<lambda>c. c\<lparr> parent := None \<rparr>) (h a)
                     = map_option (\<lambda>c. c\<lparr> parent := None \<rparr>) (h' a)"
    unfolding noParents_def by (rule fun_cong)
  then show "(h a = None \<longleftrightarrow> h' a = None)" by (cases "h a"; cases "h' a") simp_all
  from eq show "h a = Some c \<Longrightarrow> \<exists>c'. h' a = Some c' \<and> c\<lparr> parent := None \<rparr> = c'\<lparr> parent := None \<rparr>"
    by (cases "h' a") simp_all
qed

lemma same_fields:
  assumes "c\<lparr> parent := None \<rparr> = c'\<lparr> parent := None \<rparr>"
  shows "key c = key c'" "center c = center c'" "count c = count c'" "sum_coord c = sum_coord c'"
    "children c = children c'" "textSumProperty c = textSumProperty c'"
proof -
  have "key c = key (c\<lparr> parent := None \<rparr>)" "center c = center (c\<lparr> parent := None \<rparr>)"
    "count c = count (c\<lparr> parent := None \<rparr>)" "sum_coord c = sum_coord (c\<lparr> parent := None \<rparr>)"
    "children c = children (c\<lparr> parent := None \<rparr>)"
    "textSumProperty c = textSumProperty (c\<lparr> parent := None \<rparr>)" by simp_all
  then show "key c = key c'" "center c = center c'" "count c = count c'" "sum_coord c = sum_coord c'"
    "children c = children c'" "textSumProperty c = textSumProperty c'"
    unfolding assms by simp_all
qed

lemma noParents_upd:
  assumes "noParents h = noParents h'" and "c\<lparr> parent := None \<rparr> = c'\<lparr> parent := None \<rparr>"
  shows "noParents (h(a \<mapsto> c)) = noParents (h'(a \<mapsto> c'))"
proof
  fix b
  from assms(1) have "noParents h b = noParents h' b" by simp
  with assms(2) show "noParents (h(a \<mapsto> c)) b = noParents (h'(a \<mapsto> c')) b"
    by (simp add: noParents_def)
qed

lemma visitNeighbour_noParents:
  assumes h: "noParents h = noParents h'" and c: "c1\<lparr> parent := None \<rparr> = c1'\<lparr> parent := None \<rparr>"
  shows "visitNeighbour grids h r c1 key2 mv = visitNeighbour grids h' r c1' key2 mv"
proof (cases "map_of grids key2")
  case None
  then show ?thesis by (simp add: visitNeighbour_def)
next
  case (Some a2)
  show ?thesis
  proof (cases "h a2")
    case None
    with noParents_eqD(1) [OF h, of a2] Some show ?thesis by (simp add: visitNeighbour_def)
  next
    case c2: (Some c2)
    from noParents_eqD(2) [OF h c2] obtain c2' where c2': "h' a2 = Some c2'"
      and e: "c2\<lparr> parent := None \<rparr> = c2'\<lparr> parent := None \<rparr>" by blast
    show ?thesis
      by (simp add: visitNeighbour_def Some c2 c2' same_fields(1,2) [OF e] same_fields(1,2) [OF c])
  qed
qed

lemma visitCell_noParents:
  assumes h: "noParents h = noParents h'"
  shows "visitCell grids h r e mv = visitCell grids h' r e mv"
proof (cases "h (snd e)")
  case None
  with noParents_eqD(1) [OF h, of "snd e"] show ?thesis by (simp add: visitCell_def)
next
  case (Some c1)
  from noParents_eqD(2) [OF h Some] obtain c1' where c1': "h' (snd e) = Some c1'"
    and c: "c1\<lparr> parent := None \<rparr> = c1'\<lparr> parent := None \<rparr>" by blast
  have "visitNeighbour grids h r c1 = visitNeighbour grids h' r c1'"
    by (intro ext) (rule visitNeighbour_noParents [OF h c])
  then show ?thesis by (simp add: visitCell_def Some c1' same_fields(1) [OF c])
qed

lemma findMerging_noParents:
  assumes "noParents h = noParents h'"
  shows "findMerging grids h r = findMerging grids h' r"
proof -
  have "visitCell grids h r = visitCell grids h' r"
    by (intro ext) (rule visitCell_noParents [OF assms])
  then show ?thesis by (simp add: findMerging_def)
qed

lemma absorb_noParents:
  assumes "sameButParents s s'"
  shows "sameButParents (absorb g t s) (absorb g t s')"
proof -
  obtain grids h cm where s: "s = (grids, h, cm)" by (cases s)
  obtain grids' h' cm' where s': "s' = (grids', h', cm')" by (cases s')
  from assms have g: "grids' = grids" and c: "cm' = cm" and h: "noParents h = noParents h'"
    by (simp_all add: sameButParents_def s s')
  show ?thesis
  proof (cases "h t")
    case None
    with noParents_eqD(1) [OF h, of t] assms show ?thesis by (simp add: absorb_def s s')
  next
    case t: (Some tobj)
    from noParents_eqD(2) [OF h t] obtain tobj' where t': "h' t = Some tobj'"
      and et: "tobj\<lparr> parent := None \<rparr> = tobj'\<lparr> parent := None \<rparr>" by blast
    note ft = same_fields [OF et]
    show ?thesis
    proof (cases "h g")
      case None
      with noParents_eqD(1) [OF h, of g] assms show ?thesis
        by (simp add: absorb_def s s' t t' ft)
    next
      case gg: (Some grid)
      from noParents_eqD(2) [OF h gg] obtain grid' where g': "h' g = Some grid'"
        and eg: "grid\<lparr> parent := None \<rparr> = grid'\<lparr> parent := None \<rparr>" by blast
      note fg = same_fields [OF eg]
      have "noParents (h(g \<mapsto> merged grid tobj)) = noParents (h'(g \<mapsto> merged grid' tobj'))"
        using h by (rule noParents_upd) (simp add: merged_def ft fg)
      then show ?thesis
        using assms
        by (simp add: absorb_def s s' t t' gg g' ft sameButParents_def merged_def)
    qed
  qed
qed

lemma recenter_noParents:
  assumes "noParents h = noParents h'"
  shows "noParents (recenter g h) = noParents (recenter g h')"
proof (cases "h g")
  case None
  with noParents_eqD(1) [OF assms, of g] assms show ?thesis by (simp add: recenter_def)
next
  case (Some grid)
  from noParents_eqD(2) [OF assms Some] obtain grid' where g': "h' g = Some grid'"
    and eg: "grid\<lparr> parent := None \<rparr> = grid'\<lparr> parent := None \<rparr>" by blast
  note fg = same_fields [OF eg]
  show ?thesis
    unfolding recenter_def Some g' option.case
    using assms by (rule noParents_upd) (simp add: fg)
qed

lemma fold_absorb_noParents:
  "sameButParents s s' \<Longrightarrow> sameButParents (fold (absorb g) ts s) (fold (absorb g) ts s')"
  by (induction ts arbitrary: s s') (simp_all add: absorb_noParents)

lemma mergeInto_noParents:
  assumes "sameButParents s s'"
  shows "sameButParents (mergeInto e s) (mergeInto e s')"
proof (cases "map_of (fst s) (fst e)")
  case None
  with assms show ?thesis by (simp add: mergeInto_def sameButParents_def)
next
  case (Some g)
  from assms have m': "map_of (fst s') (fst e) = Some g" using Some by (simp add: sameButParents_def)
  obtain grids h cm where f: "fold (absorb g) (snd e) s = (grids, h, cm)"
    by (cases "fold (absorb g) (snd e) s")
  obtain grids' h' cm' where f': "fold (absorb g) (snd e) s' = (grids', h', cm')"
    by (cases "fold (absorb g) (snd e) s'")
  from fold_absorb_noParents [OF assms, of g "snd e"]
  have "grids = grids'" "cm = cm'" "noParents h = noParents h'"
    by (simp_all add: f f' sameButParents_def)
  moreover from this(3) have "noParents (recenter g h) = noParents (recenter g h')"
    by (rule recenter_noParents)
  moreover have "mergeInto e s = (grids, recenter g h, cm)"
    "mergeInto e s' = (grids', recenter g h', cm')"
    by (simp_all add: mergeInto_def Some m' f f')
  ultimately show ?thesis by (simp add: sameButParents_def)
qed

lemma fold_mergeInto_noParents:
  "sameButParents s s' \<Longrightarrow> sameButParents (fold mergeInto es s) (fold mergeInto es s')"
  by (induction es arbitrary: s s') (simp_all add: mergeInto_noParents)

lemma mergeClusters_noParents:
  assumes "noParents h = noParents h'"
  shows "clusters (mergeClusters grids h r) = clusters (mergeClusters grids h' r)"
    and "clusterMap (mergeClusters grids h r) = clusterMap (mergeClusters grids h' r)"
    and "noParents (objects (mergeClusters grids h r)) = noParents (objects (mergeClusters grids h' r))"
proof -
  have "sameButParents (grids, h, grids) (grids, h', grids)"
    using assms by (simp add: sameButParents_def)
  from fold_mergeInto_noParents [OF this, of "fst (findMerging grids h r)"]
  have "sameButParents
          (clusters (mergeClusters grids h r), objects (mergeClusters grids h r),
           clusterMap (mergeClusters grids h r))
          (clusters (mergeClusters grids h' r), objects (mergeClusters grids h' r),
           clusterMap (mergeClusters grids h' r))"
    by (simp only: mergeClusters_fold findMerging_noParents [OF assms])
  then show "clusters (mergeClusters grids h r) = clusters (mergeClusters grids h' r)"
    and "clusterMap (mergeClusters grids h r) = clusterMap (mergeClusters grids h' r)"
    and "noParents (objects (mergeClusters grids h r)) = noParents (objects (mergeClusters grids h' r))"
    by (simp_all add: sameButParents_def)
qed

lemma addPoint_noParents:
  assumes "fst gs = fst gs'" and "noParents (snd gs) = noParents (snd gs')"
  shows "fst (addPoint sumProperty mn r preT preCache p gs)
           = fst (addPoint sumProperty mn r preT' preCache' p gs')"
    and "noParents (snd (addPoint sumProperty mn r preT preCache p gs))
           = noParents (snd (addPoint sumProperty mn r preT' preCache' p gs'))"
proof -
  define k where "k = cellOf mn r (px p) (py p)"
  note h = assms(2)
  have both: "fst (addPoint sumProperty mn r preT preCache p gs)
           = fst (addPoint sumProperty mn r preT' preCache' p gs') \<and>
        noParents (snd (addPoint sumProperty mn r preT preCache p gs))
           = noParents (snd (addPoint sumProperty mn r preT' preCache' p gs'))"
  proof (cases "map_of (fst gs) k")
    case None
    then have None': "map_of (fst gs') k = None" using assms(1) by simp
    have "noParents ((snd gs)(k \<mapsto> newCell sumProperty mn preT preCache k p))
            = noParents ((snd gs')(k \<mapsto> newCell sumProperty mn preT' preCache' k p))"
      using h by (rule noParents_upd) (simp add: newCell_def)
    then show ?thesis
      using assms(1)
      by (simp add: addPoint_def Let_def k_def [symmetric] None None' newCell_def)
  next
    case (Some a)
    then have Some': "map_of (fst gs') k = Some a" using assms(1) by simp
    show ?thesis
    proof (cases "snd gs a")
      case None
      with noParents_eqD(1) [OF h, of a] assms show ?thesis
        by (simp add: addPoint_def Let_def k_def [symmetric] Some Some')
    next
      case g: (Some grid)
      from noParents_eqD(2) [OF h g] obtain grid' where g': "snd gs' a = Some grid'"
        and eg: "grid\<lparr> parent := None \<rparr> = grid'\<lparr> parent := None \<rparr>" by blast
      note fg = same_fields [OF eg]
      have "noParents ((snd gs)(a \<mapsto> grown sumProperty grid p))
              = noParents ((snd gs')(a \<mapsto> grown sumProperty grid' p))"
        using h by (rule noParents_upd) (simp add: grown_def fg)
      then show ?thesis
        using assms(1)
        by (simp add: addPoint_def Let_def k_def [symmetric] Some Some' g g' grown_def)
    qed
  qed
  from both show "fst (addPoint sumProperty mn r preT preCache p gs)
           = fst (addPoint sumProperty mn r preT' preCache' p gs')" by simp
  from both show "noParents (snd (addPoint sumProperty mn r preT preCache p gs))
           = noParents (snd (addPoint sumProperty mn r preT' preCache' p gs'))" by simp
qed

lemma bucketPoints_noParents:
  "fst (bucketPoints sumProperty mn r preT preCache pts)
     = fst (bucketPoints sumProperty mn r preT' preCache' pts) \<and>
   noParents (snd (bucketPoints sumProperty mn r preT preCache pts))
     = noParents (snd (bucketPoints sumProperty mn r preT' preCache' pts))"
proof (induction pts rule: rev_induct)
  case Nil
  show ?case by (simp add: bucketPoints_def)
next
  case (snoc p pts)
  then show ?case
    using addPoint_noParents
      [of "bucketPoints sumProperty mn r preT preCache pts"
          "bucketPoints sumProperty mn r preT' preCache' pts" sumProperty mn r preT preCache p
          preT' preCache']
    by (simp add: bucketPoints_snoc)
qed

lemma levelView_noParents:
  assumes "clusters lr = clusters lr'" and "noParents (objects lr) = noParents (objects lr')"
  shows "levelView (Some lr) = levelView (Some lr')"
proof -
  have "map_option (\<lambda>c. (key c, count c, center c)) (objects lr a)
          = map_option (\<lambda>c. (key c, count c, center c)) (objects lr' a)" for a
  proof (cases "objects lr a")
    case None
    with noParents_eqD(1) [OF assms(2), of a] show ?thesis by simp
  next
    case (Some c)
    from noParents_eqD(2) [OF assms(2) Some] obtain c' where "objects lr' a = Some c'"
      and e: "c\<lparr> parent := None \<rparr> = c'\<lparr> parent := None \<rparr>" by blast
    with Some same_fields(1,2,3) [OF e] show ?thesis by simp
  qed
  then show ?thesis by (simp add: levelView_def assms(1))
qed

section \<open>The specified properties\<close>




text \<open>
  C2. When the marker extent exists and the cell size of the level is not \<open>0\<close>,
  \<^verbatim>\<open>_computeZoomGrid\<close> returns a level, and every cluster of it has its centre at its
  coordinate sum divided by its count; the count is positive and is the number of its
  members, and for points indexed by \<^verbatim>\<open>_initGridSystem\<close> the sum is the sum of the
  members' coordinates, so the centre is their arithmetic mean. Moreover every turn of
  the second loop of \<^verbatim>\<open>_mergeClusters\<close> leaves the object it merged into with its
  centre at its sum divided by its count. Numbers are real numbers here: the statement
  is exact arithmetic, not the rounding of the source's floating point.
\<close>

theorem centroid:
  assumes "markerExtent st \<noteq> None" and "cellSize st zoom \<noteq> 0"
  shows "(case fst (computeZoomGrid st zoom) of
            None \<Rightarrow> False
          | Some lr \<Rightarrow>
              (\<forall>e \<in> set (clusters lr).
                 case objects lr (snd e) of
                   None \<Rightarrow> False
                 | Some c \<Rightarrow>
                     cx (center c) = cx (sum_coord c) / real (count c) \<and>
                     cy (center c) = cy (sum_coord c) / real (count c) \<and>
                     0 < count c \<and> count c = length (children c) \<and>
                     (indexed (markerPoints st) \<longrightarrow> sum_coord c = sumCoords (children c)))) \<and>
         (\<forall>s e g c. map_of (fst s) (fst e) = Some g \<longrightarrow> fst (snd (mergeInto e s)) g = Some c \<longrightarrow>
            cx (center c) = cx (sum_coord c) / real (count c) \<and>
            cy (center c) = cy (sum_coord c) / real (count c))"
proof -
  from assms(1) obtain ext where ext: "markerExtent st = Some ext" by blast
  let ?lr = "levelOf st zoom ext"
  have res: "fst (computeZoomGrid st zoom) = Some ?lr" by (simp add: computeZoomGrid_Some [OF ext])
  have pre: "storeAll (preOK (indexed (markerPoints st))) (objects ?lr)"
    by (rule levelOf_objects(1)) simp
  have cen: "storeAll centerOK (objects ?lr)"
    by (rule levelOf_objects(2) [where b = False]) simp
  have wf: "wf_grids (clusters ?lr) (objects ?lr)"
    by (rule levelOf_objects(3) [where b = False]) simp
  have A: "case objects ?lr (snd e) of
             None \<Rightarrow> False
           | Some c \<Rightarrow>
               cx (center c) = cx (sum_coord c) / real (count c) \<and>
               cy (center c) = cy (sum_coord c) / real (count c) \<and>
               0 < count c \<and> count c = length (children c) \<and>
               (indexed (markerPoints st) \<longrightarrow> sum_coord c = sumCoords (children c))"
    if e: "e \<in> set (clusters ?lr)" for e
  proof -
    from wf e have "snd e = fst e" "objects ?lr (fst e) \<noteq> None" by (rule wf_grids_mem)+
    then obtain c where c: "objects ?lr (snd e) = Some c" by auto
    from storeAllD [OF pre c] storeAllD [OF cen c] show ?thesis
      unfolding c option.case preOK_def centerOK_def multi_def by auto
  qed
  have B: "cx (center c) = cx (sum_coord c) / real (count c) \<and>
           cy (center c) = cy (sum_coord c) / real (count c)"
    if "map_of (fst s) (fst e) = Some g" "fst (snd (mergeInto e s)) g = Some c" for s e g c
    using centerOK_mergeInto [OF that] by (simp add: centerOK_def multi_def)
  show ?thesis unfolding res option.case using A B by blast
qed

theorem centroid_witness:
  "markerExtent scenarioA \<noteq> None \<and> cellSize scenarioA 0 \<noteq> 0 \<and> indexed (markerPoints scenarioA) \<and>
   (case fst (computeZoomGrid scenarioA 0) of
      None \<Rightarrow> False
    | Some lr \<Rightarrow>
        list_all (\<lambda>e. case objects lr (snd e) of
                   None \<Rightarrow> False
                 | Some c \<Rightarrow>
                     cx (center c) = cx (sum_coord c) / real (count c) \<and>
                     cy (center c) = cy (sum_coord c) / real (count c) \<and>
                     0 < count c \<and> count c = length (children c) \<and>
                     sum_coord c = sumCoords (children c)) (clusters lr))"
proof -
  have i: "indexed (markerPoints scenarioA)"
    unfolding scenarioA_def by (rule indexed_initGridSystem)
  from centroid [of scenarioA 0] i show ?thesis
    by (auto simp: scenarioA_extent scenarioA_cellSize list_all_iff split: option.splits)
qed


text \<open>
  C6, as amended. For the grid that the bucketing builds from any list of points:
  the merge list that the first loop of \<^verbatim>\<open>_mergeClusters\<close> gives a cell holds exactly
  the cell's neighbours among the 8 around it that are in the grid and whose centre, as
  the bucketing left it, is at distance at most \<open>r\<close> (\<open>near\<close>: the boundary is included)
  from the cell's;
  after the second loop every key of the grid resolves to the cell of the first merge
  list on which it stands, and to its own object when it stands on none;
  a key that resolves to another cell's object is a neighbour of that cell within \<open>r\<close>
  of it, so that no cell further than \<open>r\<close> away is ever merged;
  and of two neighbouring cells within \<open>r\<close> of each other at least one is absorbed, so
  the two never both survive as clusters.
\<close>

theorem merge_threshold:
  assumes gs: "gs = bucketPoints sumProperty mn cs preT preCache pts"
    and M: "M = fst (findMerging (fst gs) (snd gs) r)"
    and lr: "lr = mergeClusters (fst gs) (snd gs) r"
  shows "(\<forall>e \<in> set M. snd e = nearList (fst gs) (snd gs) r (fst e)) \<and>
         (\<forall>k \<in> fst ` set (fst gs). map_of (clusterMap lr) k = Some (absorber M k)) \<and>
         (\<forall>e \<in> set (clusterMap lr). snd e \<noteq> fst e \<longrightarrow> near (fst gs) (snd gs) r (snd e) (fst e)) \<and>
         (\<forall>k \<in> fst ` set (fst gs). \<forall>k2. near (fst gs) (snd gs) r k k2 \<longrightarrow>
            \<not> (k \<in> fst ` set (clusters lr) \<and> k2 \<in> fst ` set (clusters lr)))"
proof -
  have "bucketInv mn cs pts gs" unfolding gs by (rule bucketInv_bucketPoints)
  then have wf: "wf_grids (fst gs) (snd gs)" "wf_store (snd gs)" unfolding bucketInv_def by blast+
  have A: "\<forall>e \<in> set M. snd e = nearList (fst gs) (snd gs) r (fst e)"
    unfolding M using findMerging_lists [OF wf] by blast
  have B: "\<forall>k \<in> fst ` set (fst gs). map_of (clusterMap lr) k = Some (absorber M k)"
    unfolding M lr using clusterMap_absorber(1) [OF wf] by blast
  have D: "\<forall>e \<in> set (clusterMap lr). snd e \<noteq> fst e \<longrightarrow> near (fst gs) (snd gs) r (snd e) (fst e)"
    unfolding lr using absorbed_near [OF wf] by blast
  have C: "\<not> (k \<in> fst ` set (clusters lr) \<and> k2 \<in> fst ` set (clusters lr))"
    if k: "k \<in> fst ` set (fst gs)" and n: "near (fst gs) (snd gs) r k k2" for k k2
  proof -
    from near_listed [OF wf n k] obtain e where e: "e \<in> set M"
      and "k \<in> set (snd e) \<or> k2 \<in> set (snd e)" unfolding M by blast
    then show ?thesis using listed_deleted [OF wf e [unfolded M]] unfolding lr by blast
  qed
  from A B C D show ?thesis by blast
qed

theorem merge_threshold_witness:
  "near (fst boundaryGrid) (snd boundaryGrid) 5 (0, 1) (1, 1) \<and>
   map_option center (snd boundaryGrid (0, 1)) = Some (Coordinate 8 10) \<and>
   map_option center (snd boundaryGrid (1, 1)) = Some (Coordinate 13 10) \<and>
   distanceTo (Coordinate 8 10) (Coordinate 13 10) = 5 \<and>
   fst (findMerging (fst boundaryGrid) (snd boundaryGrid) 5) = [((0, 1), [(1, 1)])] \<and>
   map_of (clusterMap (mergeClusters (fst boundaryGrid) (snd boundaryGrid) 5)) (1, 1) = Some (0, 1) \<and>
   \<not> ((0, 1) \<in> fst ` set (clusters (mergeClusters (fst boundaryGrid) (snd boundaryGrid) 5)) \<and>
      (1, 1) \<in> fst ` set (clusters (mergeClusters (fst boundaryGrid) (snd boundaryGrid) 5)))"
proof -
  note T = merge_threshold [OF boundaryGrid_def refl refl, of 5]
  have k: "(0, 1) \<in> fst ` set (fst boundaryGrid)" "(1, 1) \<in> fst ` set (fst boundaryGrid)"
    by (simp_all add: boundaryGrid_eval(1))
  from T k(1) boundary_near
  have a: "\<not> ((0, 1) \<in> fst ` set (clusters (mergeClusters (fst boundaryGrid) (snd boundaryGrid) 5)) \<and>
      (1, 1) \<in> fst ` set (clusters (mergeClusters (fst boundaryGrid) (snd boundaryGrid) 5)))"
    by blast
  from T k(2)
  have "map_of (clusterMap (mergeClusters (fst boundaryGrid) (snd boundaryGrid) 5)) (1, 1)
      = Some (absorber (fst (findMerging (fst boundaryGrid) (snd boundaryGrid) 5)) (1, 1))"
    by blast
  then have b: "map_of (clusterMap (mergeClusters (fst boundaryGrid) (snd boundaryGrid) 5)) (1, 1)
      = Some (0, 1)"
    by (simp add: boundary_M absorber_def)
  have d: "distanceTo (Coordinate 8 10) (Coordinate 13 10) = 5" by (simp add: distanceTo_def)
  from a b d boundary_near boundaryGrid_eval(2,3) boundary_M show ?thesis by blast
qed

text \<open>
  The claim C6 as stated fails on \<open>chainLayer\<close>: the cells \<open>(2,1)\<close> and \<open>(2,2)\<close> are
  neighbours with centres within the merge radius 5, yet neither is merged into the
  other. \<open>(2,2)\<close> is absorbed by \<open>(1,1)\<close>, whose turn comes first, and \<open>(2,1)\<close> stays
  a cluster of its own.
\<close>

theorem merge_threshold_counterexample:
  "fst (computeZoomGrid chainLayer 0) = Some (mergeClusters (fst chainGrid) (snd chainGrid) 5) \<and>
   (2, 2) \<in> set (neighbours (2, 1)) \<and>
   map_option center (snd chainGrid (2, 1)) = Some (Coordinate 24 19) \<and>
   map_option center (snd chainGrid (2, 2)) = Some (Coordinate 20 20) \<and>
   distanceTo (Coordinate 24 19) (Coordinate 20 20) \<le> 5 \<and>
   clusters (mergeClusters (fst chainGrid) (snd chainGrid) 5)
     = [((0, 0), (0, 0)), ((1, 1), (1, 1)), ((2, 1), (2, 1))] \<and>
   clusterMap (mergeClusters (fst chainGrid) (snd chainGrid) 5)
     = [((0, 0), (0, 0)), ((1, 1), (1, 1)), ((2, 2), (1, 1)), ((2, 1), (2, 1))]"
proof -
  have "clusters (mergeClusters (fst chainGrid) (snd chainGrid) 5)
     = [((0, 0), (0, 0)), ((1, 1), (1, 1)), ((2, 1), (2, 1))]"
    by (simp add: chainGrid_def chainLayer_def example_defs bucket_defs merge_defs)
  moreover have "clusterMap (mergeClusters (fst chainGrid) (snd chainGrid) 5)
     = [((0, 0), (0, 0)), ((1, 1), (1, 1)), ((2, 2), (1, 1)), ((2, 1), (2, 1))]"
    by (simp add: chainGrid_def chainLayer_def example_defs bucket_defs merge_defs)
  moreover have "(2, 2) \<in> set (neighbours (2, 1))" by (simp add: neighbours_def)
  moreover have "distanceTo (Coordinate 24 19) (Coordinate 20 20) \<le> 5"
    by (simp add: distanceTo_le_iff)
  moreover have "fst (computeZoomGrid chainLayer 0)
      = Some (mergeClusters (fst chainGrid) (snd chainGrid) 5)"
  proof -
    have e: "markerExtent chainLayer = Some \<lparr> xmin = 0, ymin = 0, xmax = 24, ymax = 20 \<rparr>"
      by (simp add: chainLayer_def example_defs)
    have "preLevel chainLayer 0 = (None, chainLayer)"
      by (simp add: preLevel_def chainLayer_def example_defs)
    then show ?thesis
      by (simp add: computeZoomGrid_Some [OF e] levelOf_def chainGrid_def getMin_def)
         (simp add: chainLayer_def example_defs bucket_defs)
  qed
  ultimately show ?thesis using chainGrid_eval(3,4) by blast
qed


text \<open>
  C5, as amended. When the marker extent exists and the cell size of the level is not
  \<open>0\<close>, \<^verbatim>\<open>_computeZoomGrid\<close> returns a level, and the \<^verbatim>\<open>parent\<close> of each of its clusters
  is fixed by the first indexed point \<open>q\<close> that falls into the cluster's own cell, the one
  that created the object during the bucketing: it is the entry of the coarser level's
  \<^verbatim>\<open>clusterMap\<close>, as the cache holds it after the call, for the cell of \<open>q\<close> at the
  coarser cell size. It is absent when that entry is missing, when the cache has no
  coarser level, or when the coarser level has no resolution (or a zero cell size).
  Merging does not change it.
\<close>

theorem parent_linkage:
  assumes "markerExtent st = Some ext" and "cellSize st zoom \<noteq> 0"
  shows "case computeZoomGrid st zoom of
           (None, st') \<Rightarrow> False
         | (Some lr, st') \<Rightarrow>
             (\<forall>e \<in> set (clusters lr).
                case objects lr (snd e) of
                  None \<Rightarrow> False
                | Some c \<Rightarrow>
                    (case firstPoint (getMin ext) (cellSize st zoom) (markerPoints st) (key c) of
                       None \<Rightarrow> False
                     | Some q \<Rightarrow>
                         parent c =
                           (if getResolution (theMap st) (zoom - 1) = 0 \<or> cellSize st (zoom - 1) = 0
                            then None
                            else case clusterCache st' (zoom - 1) of
                                   None \<Rightarrow> None
                                 | Some pc \<Rightarrow>
                                     map_of (clusterMap pc)
                                       (cellOf (getMin ext) (cellSize st (zoom - 1)) (px q) (py q)))))"
proof -
  define preT where "preT = (if getResolution (theMap st) (zoom - 1) \<noteq> 0
                  then Some (cellSize st (zoom - 1)) else None)"
  define preCache where "preCache = fst (preLevel st zoom)"
  define st' where "st' = snd (preLevel st zoom)"
  define mn where "mn = getMin ext"
  define r where "r = cellSize st zoom"
  define pts where "pts = markerPoints st"
  define gs where "gs = bucketPoints (textSumPropertyName (options st)) mn r preT preCache pts"
  define lr where "lr = mergeClusters (fst gs) (snd gs) (r / 2)"
  have lv: "levelOf st zoom ext = lr"
    by (simp add: levelOf_def Let_def gs_def preT_def lr_def preCache_def mn_def r_def pts_def)
  have res: "computeZoomGrid st zoom = (Some lr, st')"
    by (simp add: computeZoomGrid_Some [OF assms(1)] lv st'_def)
  have cache: "clusterCache st' (zoom - 1) = preCache"
    unfolding st'_def preCache_def by (rule preLevel_cache)
  have "bucketInv mn r pts gs" unfolding gs_def by (rule bucketInv_bucketPoints)
  then have wf: "wf_grids (fst gs) (snd gs)" "wf_store (snd gs)"
    and keys: "fst ` set (fst gs) = (\<lambda>p. cellOf mn r (px p) (py p)) ` set pts"
    unfolding bucketInv_def by blast+
  have par: "parentInv mn r preT preCache pts (snd gs)"
    unfolding gs_def using parentInv_bucketPoints by blast
  have wfc: "wf_grids (clusters lr) (objects lr)" and sub: "fst ` set (clusters lr) \<subseteq> fst ` set (fst gs)"
    using inv2_mergeClusters [OF wf, of "r / 2"] by (simp_all add: lr_def inv2_def)
  have pOf: "parentOf mn preT preCache q =
               (if getResolution (theMap st) (zoom - 1) = 0 \<or> cellSize st (zoom - 1) = 0 then None
                else case preCache of
                       None \<Rightarrow> None
                     | Some pc \<Rightarrow> map_of (clusterMap pc) (cellOf mn (cellSize st (zoom - 1)) (px q) (py q)))"
    for q by (simp add: parentOf_def preT_def)
  have A: "case objects lr (snd e) of
             None \<Rightarrow> False
           | Some c \<Rightarrow>
               (case firstPoint mn r pts (key c) of
                  None \<Rightarrow> False
                | Some q \<Rightarrow>
                    parent c =
                      (if getResolution (theMap st) (zoom - 1) = 0 \<or> cellSize st (zoom - 1) = 0
                       then None
                       else case preCache of
                              None \<Rightarrow> None
                            | Some pc \<Rightarrow>
                                map_of (clusterMap pc) (cellOf mn (cellSize st (zoom - 1)) (px q) (py q))))"
    if e: "e \<in> set (clusters lr)" for e
  proof -
    from wfc e have se: "snd e = fst e" and "objects lr (fst e) \<noteq> None" by (rule wf_grids_mem)+
    then obtain c where c: "objects lr (snd e) = Some c" by auto
    from parent_mergeClusters [of "fst gs" "snd gs" "r / 2" "snd e"] c
    have mp: "map_option parent (snd gs (snd e)) = Some (parent c)"
      and mk: "map_option key (snd gs (snd e)) = Some (key c)" by (simp_all add: lr_def)
    from mp obtain c0 where c0: "snd gs (snd e) = Some c0" by (cases "snd gs (snd e)") auto
    with mp mk have pc: "parent c0 = parent c" and kc: "key c0 = key c" by simp_all
    from wf_storeD [OF wf(2) c0] kc have k: "key c = snd e" by simp
    from e sub se have "snd e \<in> (\<lambda>p. cellOf mn r (px p) (py p)) ` set pts" unfolding keys [symmetric] by auto
    then have "firstPoint mn r pts (snd e) \<noteq> None"
      unfolding firstPoint_def by (simp add: find_None_image)
    then obtain q where q: "firstPoint mn r pts (snd e) = Some q" by blast
    from par c0 have "parent c0 = (case firstPoint mn r pts (snd e) of
                      None \<Rightarrow> None | Some q \<Rightarrow> parentOf mn preT preCache q)"
      unfolding parentInv_def by blast
    with q pc have "parent c = parentOf mn preT preCache q" by simp
    then show ?thesis by (simp add: c k q pOf)
  qed
  show ?thesis
    unfolding res prod.case option.case cache
    using A unfolding mn_def r_def pts_def by blast
qed

theorem parent_linkage_witness:
  "markerExtent parentLayer = Some \<lparr> xmin = 0, ymin = 0, xmax = 39, ymax = 19 \<rparr> \<and>
   cellSize parentLayer 1 \<noteq> 0 \<and>
   (case computeZoomGrid parentLayer 1 of
      (None, st') \<Rightarrow> False
    | (Some lr, st') \<Rightarrow>
        (\<forall>e \<in> set (clusters lr).
           case objects lr (snd e) of
             None \<Rightarrow> False
           | Some c \<Rightarrow>
               (case firstPoint (getMin \<lparr> xmin = 0, ymin = 0, xmax = 39, ymax = 19 \<rparr>)
                       (cellSize parentLayer 1) (markerPoints parentLayer) (key c) of
                  None \<Rightarrow> False
                | Some q \<Rightarrow>
                    parent c =
                      (if getResolution (theMap parentLayer) (1 - 1) = 0 \<or>
                          cellSize parentLayer (1 - 1) = 0
                       then None
                       else case clusterCache st' (1 - 1) of
                              None \<Rightarrow> None
                            | Some pc \<Rightarrow>
                                map_of (clusterMap pc)
                                  (cellOf (getMin \<lparr> xmin = 0, ymin = 0, xmax = 39, ymax = 19 \<rparr>)
                                     (cellSize parentLayer (1 - 1)) (px q) (py q))))))"
proof -
  have "cellSize parentLayer 1 \<noteq> 0" by (simp add: parentLayer_cellSize)
  with parent_linkage [OF parentLayer_extent this] parentLayer_extent show ?thesis by blast
qed

text \<open>
  The claim C5 as stated fails on \<open>parentLayer\<close> at level 1: the cluster of key
  \<open>(1,0)\<close> holds the markers at \<open>(19,0)\<close> and \<open>(21,0)\<close>, its centre after merging is
  \<open>(20,0)\<close>, which lies in the cell \<open>(1,0)\<close> of level 0 (cell size 20), and level 0 maps
  that key to its cluster \<open>(1,0)\<close>; the stored parent is the cluster \<open>(0,0)\<close> of level 0,
  the one of the cell of the first marker.
\<close>

theorem parent_linkage_counterexample:
  "map_option parent (clusterAt (fst (computeZoomGrid parentLayer 1)) (1, 0)) = Some (Some (0, 0)) \<and>
   map_option center (clusterAt (fst (computeZoomGrid parentLayer 1)) (1, 0)) = Some (Coordinate 20 0) \<and>
   map_option clusterMap (clusterCache (snd (computeZoomGrid parentLayer 1)) 0)
     = Some [((0, 0), (0, 0)), ((1, 0), (1, 0))] \<and>
   cellOf (Coordinate 0 0) 20 20 0 = (1, 0)"
proof -
  let ?ext = "\<lparr> xmin = 0, ymin = 0, xmax = 39, ymax = 19 \<rparr>"
  have res: "computeZoomGrid parentLayer 1
               = (Some (levelOf parentLayer 1 ?ext), snd (preLevel parentLayer 1))"
    by (rule computeZoomGrid_Some [OF parentLayer_extent])
  have r: "getResolution (theMap parentLayer) 0 \<noteq> 0"
    "textSumPropertyName (options parentLayer) = None"
    by (simp_all add: parentLayer_def example_defs)
  have pts: "markerPoints parentLayer =
      [\<lparr> px = 19, py = 0, pid = 0, geometry = markerAt 0 19 0 \<rparr>,
       \<lparr> px = 21, py = 0, pid = 1, geometry = markerAt 1 21 0 \<rparr>,
       \<lparr> px = 0, py = 19, pid = 2, geometry = markerAt 2 0 19 \<rparr>,
       \<lparr> px = 39, py = 19, pid = 3, geometry = markerAt 3 39 19 \<rparr>]"
    by (simp add: parentLayer_def layerOf_def initGridSystem_def indexGeometry_def combine_def
          markerAt_def)
  have L: "levelOf parentLayer 1 ?ext =
      mergeClusters
        (fst (bucketPoints None (Coordinate 0 0) 10 (Some 20) (Some (levelOf parentLayer 0 ?ext))
                (markerPoints parentLayer)))
        (snd (bucketPoints None (Coordinate 0 0) 10 (Some 20) (Some (levelOf parentLayer 0 ?ext))
                (markerPoints parentLayer)))
        5"
    by (simp add: levelOf_def [of parentLayer 1] r parentLayer_pre1 parentLayer_cellSize getMin_def Let_def)
  have A: "map_option parent (objects (levelOf parentLayer 1 ?ext) (1, 0)) = Some (Some (0, 0))"
    unfolding L by (simp add: pts bucket_defs merge_defs parentLayer_level0 power_divide)
  have B: "map_option center (objects (levelOf parentLayer 1 ?ext) (1, 0)) = Some (Coordinate 20 0)"
    unfolding L by (simp add: pts bucket_defs merge_defs parentLayer_level0 power_divide)
  have C: "map_option clusterMap (clusterCache (snd (preLevel parentLayer 1)) 0)
             = Some [((0, 0), (0, 0)), ((1, 0), (1, 0))]"
    using preLevel_cache [of parentLayer 1] by (simp add: parentLayer_pre1 parentLayer_level0)
  have D: "cellOf (Coordinate 0 0) 20 20 0 = (1, 0)" by (simp add: cellOf_def)
  show ?thesis unfolding res using A B C D by (simp add: clusterAt_def)
qed

text \<open>
  C7, as amended. When no marker of the layer is visible (an empty layer included),
  the level that \<^verbatim>\<open>draw\<close> obtains after a recomputation is \<^verbatim>\<open>null\<close>, not a level
  without clusters; \<^verbatim>\<open>_getClustersToDraw\<close> makes of it an empty list of clusters and
  of markers, and \<^verbatim>\<open>_computeZoomGrid\<close> returns \<^verbatim>\<open>null\<close> for every level and leaves the
  renderer as it is. The model has no error value on these paths: none is raised.
\<close>

theorem no_visible_marker:
  assumes "\<forall>g \<in> set (geoList st). \<not> isVisible g"
  shows "fst (zoomClusters True st) = None \<and>
         getClustersToDraw onScreen (snd (zoomClusters True st)) (fst (zoomClusters True st)) = ([], []) \<and>
         (\<forall>z. computeZoomGrid (snd (zoomClusters True st)) z = (None, snd (zoomClusters True st)))"
proof -
  have z: "zoomClusters True st =
             (clusterCache (computeGrid (clearDataCache st))
                (getZoom (theMap (computeGrid (clearDataCache st)))),
              computeGrid (clearDataCache st))"
    by (simp add: zoomClusters_def Let_def)
  have A: "fst (zoomClusters True st) = None"
    unfolding z by (simp add: computeGrid_hidden(2) [OF assms])
  have B: "computeZoomGrid (snd (zoomClusters True st)) z' = (None, snd (zoomClusters True st))" for z'
    unfolding z by (simp add: computeZoomGrid_None computeGrid_hidden(1) [OF assms])
  show ?thesis using A B by (simp add: getClustersToDraw_def)
qed

theorem no_visible_marker_witness:
  "list_all (\<lambda>g. \<not> isVisible g) (geoList hiddenLayer) \<and> geoList hiddenLayer \<noteq> [] \<and>
   fst (zoomClusters True hiddenLayer) = None \<and>
   getClustersToDraw (\<lambda>c. True) (snd (zoomClusters True hiddenLayer))
     (fst (zoomClusters True hiddenLayer)) = ([], []) \<and>
   computeZoomGrid (snd (zoomClusters True hiddenLayer)) 2 = (None, snd (zoomClusters True hiddenLayer))"
proof -
  have h: "\<forall>g \<in> set (geoList hiddenLayer). \<not> isVisible g"
    by (simp add: hiddenLayer_def layerOf_def markerAt_def)
  have l: "list_all (\<lambda>g. \<not> isVisible g) (geoList hiddenLayer)" "geoList hiddenLayer \<noteq> []"
    by (simp_all add: hiddenLayer_def layerOf_def markerAt_def)
  from no_visible_marker [OF h, of "\<lambda>c. True"] l show ?thesis by blast
qed

text \<open>
  The claim C7 as stated fails on \<open>emptyLayer\<close>: what \<^verbatim>\<open>draw\<close> reads for the level and
  what \<^verbatim>\<open>_computeZoomGrid\<close> returns is \<^verbatim>\<open>null\<close>, which is not the empty level.
\<close>

theorem empty_level_counterexample:
  "fst (zoomClusters True emptyLayer) = None \<and>
   fst (computeZoomGrid (snd (zoomClusters True emptyLayer)) 0) = None \<and>
   fst (computeZoomGrid (snd (zoomClusters True emptyLayer)) 0)
     \<noteq> Some \<lparr> clusters = [], clusterMap = [], objects = (\<lambda>a. None) \<rparr>"
proof -
  have h: "\<forall>g \<in> set (geoList emptyLayer). \<not> isVisible g"
    by (simp add: emptyLayer_def layerOf_def)
  from computeGrid_hidden [OF h] show ?thesis
    by (simp add: zoomClusters_def Let_def computeZoomGrid_None)
qed

text \<open>
  C4 on the code. In \<open>zoomedIn\<close> the map is at level 1, the coarser level 0 is cached
  with two cluster entries and the layer has two markers, so by the claim level 1 should
  become the cached level 0. \<^verbatim>\<open>_computeGrid\<close> computes level 1 anew instead: the two
  cache entries differ (\<open>computeGrid_no_alias\<close> shows that the reuse never happens).
\<close>

theorem computeGrid_recomputes:
  "map_option clusters (clusterCache zoomedIn 0) = Some [((0, 0), (0, 0)), ((5, 5), (5, 5))] \<and>
   length (geoList zoomedIn) = 2 \<and>
   getZoom (theMap zoomedIn) = 1 \<and>
   getResolution (theMap zoomedIn) (getMinZoom (theMap zoomedIn))
     > getResolution (theMap zoomedIn) (getMaxZoom (theMap zoomedIn)) \<and>
   map_option clusters (clusterCache (computeGrid zoomedIn) 0)
     = Some [((0, 0), (0, 0)), ((5, 5), (5, 5))] \<and>
   map_option clusters (clusterCache (computeGrid zoomedIn) 1)
     = Some [((0, 0), (0, 0)), ((10, 10), (10, 10))]"
proof -
  let ?ext = "\<lparr> xmin = 0, ymin = 0, xmax = 100, ymax = 100 \<rparr>"
  let ?l0 = "levelOf (initGridSystem farLayer) 0 ?ext"
  have p: "preLevel zoomedIn 1 = (Some ?l0, zoomedIn)"
    by (simp add: preLevel_def zoomedIn_fields)
  have cg: "computeGrid zoomedIn =
              zoomedIn\<lparr> clusterCache := (clusterCache zoomedIn)(1 := Some (levelOf zoomedIn 1 ?ext)) \<rparr>"
    by (simp add: computeGrid_no_alias Let_def zoomedIn_fields
          computeZoomGrid_Some [OF zoomedIn_fields(1)] p)
  have l1: "clusters (levelOf zoomedIn 1 ?ext) = [((0, 0), (0, 0)), ((10, 10), (10, 10))]"
    by (simp add: levelOf_def [of zoomedIn 1] p zoomedIn_fields cellSize_def getMin_def Let_def)
       (simp add: bucket_defs merge_defs power_divide farLayer_level0)
  show ?thesis
    by (simp add: cg zoomedIn_fields farLayer_level0 l1)
qed



text \<open>
  C9. Two renderers with the same map, the same options and the same markers, and any
  caches, extents and points left from before, index the same points, and for every
  level \<^verbatim>\<open>_computeZoomGrid\<close> gives them the same clusters in the same order, with the
  same keys, counts and centres (or \<^verbatim>\<open>null\<close> for both).
\<close>

theorem determinism:
  assumes "theMap st1 = theMap st2" and "options st1 = options st2" and "geoList st1 = geoList st2"
  shows "levelView (fst (computeZoomGrid (initGridSystem st1) zoom))
           = levelView (fst (computeZoomGrid (initGridSystem st2) zoom))"
proof -
  define s1 where "s1 = initGridSystem st1"
  define s2 where "s2 = initGridSystem st2"
  have same: "theMap s1 = theMap s2" "options s1 = options s2" "markerExtent s1 = markerExtent s2"
    "markerPoints s1 = markerPoints s2"
    using assms by (simp_all add: s1_def s2_def initGridSystem_def split: prod.splits)
  show ?thesis
  proof (cases "markerExtent s1")
    case None
    with same(3) show ?thesis
      by (simp add: s1_def [symmetric] s2_def [symmetric] computeZoomGrid_None)
  next
    case (Some ext)
    with same(3) have e2: "markerExtent s2 = Some ext" by simp
    have cs: "cellSize s1 z = cellSize s2 z" for z by (simp add: cellSize_def same)
    define preT where "preT = (if getResolution (theMap s1) (zoom - 1) \<noteq> 0
                  then Some (cellSize s1 (zoom - 1)) else None)"
    define gs1 where "gs1 = bucketPoints (textSumPropertyName (options s1)) (getMin ext)
       (cellSize s1 zoom) preT (fst (preLevel s1 zoom)) (markerPoints s1)"
    define gs2 where "gs2 = bucketPoints (textSumPropertyName (options s1)) (getMin ext)
       (cellSize s1 zoom) preT (fst (preLevel s2 zoom)) (markerPoints s1)"
    have l1: "levelOf s1 zoom ext = mergeClusters (fst gs1) (snd gs1) (cellSize s1 zoom / 2)"
      by (simp add: levelOf_def Let_def gs1_def preT_def)
    have l2: "levelOf s2 zoom ext = mergeClusters (fst gs2) (snd gs2) (cellSize s1 zoom / 2)"
      by (simp add: levelOf_def Let_def gs2_def preT_def same [symmetric] cs [symmetric])
    from bucketPoints_noParents
    have g: "fst gs1 = fst gs2" and h: "noParents (snd gs1) = noParents (snd gs2)"
      unfolding gs1_def gs2_def by blast+
    from mergeClusters_noParents [OF h, of "fst gs1" "cellSize s1 zoom / 2"]
    have "levelView (Some (levelOf s1 zoom ext)) = levelView (Some (levelOf s2 zoom ext))"
      unfolding l1 l2 g [symmetric] by (intro levelView_noParents)
    then show ?thesis
      by (simp add: s1_def [symmetric] s2_def [symmetric] computeZoomGrid_Some [OF Some]
            computeZoomGrid_Some [OF e2])
  qed
qed

theorem determinism_witness:
  "theMap farLayer = theMap (computeGrid farLayer) \<and>
   options farLayer = options (computeGrid farLayer) \<and>
   geoList farLayer = geoList (computeGrid farLayer) \<and>
   clusterCache farLayer 0 = None \<and> clusterCache (computeGrid farLayer) 0 \<noteq> None \<and>
   levelView (fst (computeZoomGrid (initGridSystem farLayer) 1))
     = levelView (fst (computeZoomGrid (initGridSystem (computeGrid farLayer)) 1))"
proof -
  have f: "theMap farLayer = theMap (computeGrid farLayer)"
    "options farLayer = options (computeGrid farLayer)"
    "geoList farLayer = geoList (computeGrid farLayer)"
    by (simp_all add: farLayer_computeGrid farLayer_indexed)
  have "clusterCache farLayer 0 = None" by (simp add: farLayer_def layerOf_def)
  moreover have "clusterCache (computeGrid farLayer) 0 \<noteq> None"
    by (simp add: farLayer_computeGrid)
  ultimately show ?thesis using determinism [OF f, of 1] f by blast
qed

end
